theory Spec2Isabelle
  imports Main
begin

section \<open>Python values used by codereview/engine.py\<close>

text \<open>
  Strings are byte strings (\<open>string\<close>), Python's unbounded integers are \<open>int\<close>;
  counters that the code only ever increments from zero (row count, offsets, line
  numbers) are \<open>nat\<close>. An exception is a value of \<open>exn\<close>. Private functions of the
  module are named without their leading underscore.
\<close>

datatype exn =
    TypeError
  | IndexError
  | AttributeError
  | ValueError
  | AssertionError string
  | FetchError string

text \<open>\<open>str(n)\<close> and \<open>'%d' % n\<close> for an integer: decimal digits, a minus sign first.\<close>

definition digit_char :: "nat \<Rightarrow> char" where
  "digit_char d = ''0123456789'' ! d"

fun str_nat :: "nat \<Rightarrow> string" where
  "str_nat n = (if n < 10 then [digit_char n] else str_nat (n div 10) @ [digit_char (n mod 10)])"

declare str_nat.simps [simp del]

definition str_int :: "int \<Rightarrow> string" where
  "str_int i = (if i < 0 then CHR ''-'' # str_nat (nat (- i)) else str_nat (nat i))"

definition is_digit :: "char \<Rightarrow> bool" where
  "is_digit c = (c \<in> set ''0123456789'')"

definition digit_val :: "char \<Rightarrow> nat" where
  "digit_val c = length (takeWhile (\<lambda>d. d \<noteq> c) ''0123456789'')"

text \<open>\<open>int(s)\<close> on a string of decimal digits.\<close>

definition int_of_digits :: "string \<Rightarrow> nat" where
  "int_of_digits ds = foldl (\<lambda>a c. 10 * a + digit_val c) 0 ds"

definition startswith :: "string \<Rightarrow> string \<Rightarrow> bool" where
  "startswith s p = (take (length p) s = p)"

definition endswith :: "string \<Rightarrow> string \<Rightarrow> bool" where
  "endswith s p = (length p \<le> length s \<and> drop (length s - length p) s = p)"

text \<open>Slices \<open>xs[:k]\<close> and \<open>xs[k:]\<close>: a negative bound counts from the end.\<close>

definition slice_to :: "'a list \<Rightarrow> int \<Rightarrow> 'a list" where
  "slice_to xs k = (if k < 0 then take (nat (int (length xs) + k)) xs else take (nat k) xs)"

definition slice_from :: "'a list \<Rightarrow> int \<Rightarrow> 'a list" where
  "slice_from xs k = (if k < 0 then drop (nat (int (length xs) + k)) xs else drop (nat k) xs)"

text \<open>\<open>s.split(c, 1)\<close> for a string that contains \<open>c\<close>: the parts around its first occurrence.\<close>

definition split_once :: "char \<Rightarrow> string \<Rightarrow> string \<times> string" where
  "split_once c s = (takeWhile (\<lambda>x. x \<noteq> c) s, drop 1 (dropWhile (\<lambda>x. x \<noteq> c) s))"

definition lower_char :: "char \<Rightarrow> char" where
  "lower_char c =
     (case map_of (zip ''ABCDEFGHIJKLMNOPQRSTUVWXYZ'' ''abcdefghijklmnopqrstuvwxyz'') c of
        Some l \<Rightarrow> l
      | None \<Rightarrow> c)"

section \<open>The line-count estimator\<close>

text \<open>
  A chunk of \<open>patching.ParsePatch\<close> is \<open>((old_a, old_b), (new_a, new_b), old_lines, new_lines)\<close>.
\<close>

type_synonym chunk = "(int \<times> int) \<times> (int \<times> int) \<times> string list \<times> string list"

definition ComputeLineCounts :: "string list \<Rightarrow> chunk list \<Rightarrow> int \<times> int" where
  "ComputeLineCounts old_lines chunks =
     (let old_len = int (length old_lines);
          new_len = old_len;
          new_len = (if chunks \<noteq> [] then
                       (case last chunks of ((old_a, old_b), (new_a, new_b), ol, nl) \<Rightarrow>
                          new_len + (new_b - old_b))
                     else new_len)
      in (old_len, new_len))"

section \<open>The URL of the base file\<close>

text \<open>
  \<open>urlparse.urlparse\<close> is the standard library's (CPython 2.7, without its cache):
  \<open>urlsplit\<close> takes a scheme off the front, then the network location after \<open>//\<close>, the
  fragment after \<open>#\<close> and the query after \<open>?\<close>; \<open>urlparse\<close> splits the parameters off the
  last path segment for the schemes of \<open>uses_params\<close>.
\<close>

definition scheme_chars :: string where
  "scheme_chars = ''abcdefghijklmnopqrstuvwxyzABCDEFGHIJKLMNOPQRSTUVWXYZ0123456789+-.''"

definition uses_params :: "string list" where
  "uses_params = [''ftp'', ''hdl'', ''prospero'', ''http'', ''imap'', ''https'', ''shttp'',
     ''rtsp'', ''rtspu'', ''sip'', ''sips'', ''mms'', [], ''sftp'', ''tel'']"

definition splitnetloc :: "string \<Rightarrow> string \<times> string" where
  "splitnetloc url =
     (let rest = drop 2 url
      in (takeWhile (\<lambda>c. c \<notin> set ''/?#'') rest, dropWhile (\<lambda>c. c \<notin> set ''/?#'') rest))"

definition urlsplit :: "string \<Rightarrow> exn + (string \<times> string \<times> string \<times> string \<times> string)" where
  "urlsplit url0 =
     (let i = length (takeWhile (\<lambda>c. c \<noteq> CHR '':'') url0);
          rest = drop (i + 1) url0;
          has_scheme =
            (CHR '':'' \<in> set url0 \<and> 0 < i \<and>
             (take i url0 = ''http'' \<or>
              (list_all (\<lambda>c. c \<in> set scheme_chars) (take i url0) \<and>
               (rest = [] \<or> list_ex (\<lambda>c. \<not> is_digit c) rest))));
          scheme = (if has_scheme then map lower_char (take i url0) else []);
          url = (if has_scheme then rest else url0);
          (netloc, url) = (if take 2 url = ''//'' then splitnetloc url else ([], url))
      in if (CHR ''['' \<in> set netloc \<and> CHR '']'' \<notin> set netloc) \<or>
            (CHR '']'' \<in> set netloc \<and> CHR ''['' \<notin> set netloc)
         then Inl ValueError
         else
           (let (url, fragment) = (if CHR ''#'' \<in> set url then split_once CHR ''#'' url else (url, []));
                (url, query) = (if CHR ''?'' \<in> set url then split_once CHR ''?'' url else (url, []))
            in Inr (scheme, netloc, url, query, fragment)))"

definition splitparams :: "string \<Rightarrow> string \<times> string" where
  "splitparams url =
     (if CHR ''/'' \<in> set url then
        (let r = length url - 1 - length (takeWhile (\<lambda>c. c \<noteq> CHR ''/'') (rev url));
             tl = drop r url
         in if CHR '';'' \<in> set tl
            then (take r url @ takeWhile (\<lambda>c. c \<noteq> CHR '';'') tl,
                  drop 1 (dropWhile (\<lambda>c. c \<noteq> CHR '';'') tl))
            else (url, []))
      else split_once CHR '';'' url)"

definition urlparse ::
  "string \<Rightarrow> exn + (string \<times> string \<times> string \<times> string \<times> string \<times> string)" where
  "urlparse url0 =
     (case urlsplit url0 of
        Inl e \<Rightarrow> Inl e
      | Inr (scheme, netloc, url, query, fragment) \<Rightarrow>
          (let (url, params) =
                 (if scheme \<in> set uses_params \<and> CHR '';'' \<in> set url then splitparams url
                  else (url, []))
           in Inr (scheme, netloc, url, params, query, fragment)))"

definition MakeUrl :: "string \<Rightarrow> string \<Rightarrow> int option \<Rightarrow> exn + string" where
  "MakeUrl base filename revn =
     (case urlparse base of
        Inl e \<Rightarrow> Inl e
      | Inr (scheme, netloc, path, params, query, fragment) \<Rightarrow>
          if endswith netloc ''.googlecode.com'' then
            (case revn of
               None \<Rightarrow> Inl (AssertionError ''Can't access googlecode.com without a revision'')
             | Some r \<Rightarrow>
                 if \<not> startswith path ''/svn/''
                 then Inl (AssertionError ''Malformed googlecode.com URL'')
                 else
                   (let path = drop 5 path
                    in Inr (scheme @ ''://'' @ netloc @ ''/svn-history/r'' @ str_int r @
                            ''/'' @ path @ ''/'' @ filename)))
          else
            (let url = base;
                 url = (if \<not> endswith url ''/'' then url @ ''/'' else url);
                 url = url @ filename;
                 url = (case revn of Some r \<Rightarrow> url @ ''?rev='' @ str_int r | None \<Rightarrow> url)
             in Inr url))"

section \<open>Fetching the base file\<close>

text \<open>
  The models of the application (\<open>models.Patch\<close>, \<open>models.Content\<close>) are records of the
  properties this module reads. \<open>db.Text\<close> is a unicode string: given as a literal, or
  decoded from bytes with a named encoding.
\<close>

record patchset =
  patchset_id :: nat
  issue :: nat

record patch =
  patch_id :: nat
  patch_patchset :: patchset
  filename :: string
  lines :: "string list"

datatype db_text = Literal string | Decoded string string

record content =
  content_text :: db_text
  content_parent :: patch
  is_complete :: "bool option"

record response =
  status_code :: int
  response_content :: string

text \<open>
  What \<open>FetchBase\<close> calls outside this module: \<open>patching.ParseRevision\<close>, the validation
  of \<open>db.Link\<close> (it raises \<open>BadValueError\<close> on a value it refuses), \<open>urlfetch.fetch\<close>
  (a response, or an exception given by its class name and its text), and whether a byte
  string decodes as UTF-8.
\<close>

record world =
  ParseRevision :: "string list \<Rightarrow> int option"
  Link_valid :: "string \<Rightarrow> bool"
  urlfetch :: "string \<Rightarrow> (string \<times> string) + response"
  decodes_utf8 :: "string \<Rightarrow> bool"

definition ToText :: "world \<Rightarrow> string list \<Rightarrow> db_text" where
  "ToText w ls =
     (let txt = concat ls
      in if decodes_utf8 w txt then Decoded ''utf-8'' txt else Decoded ''latin-1'' txt)"

text \<open>
  \<open>FetchBase\<close> returns the content or the exception it raises, and with it the URLs it
  has passed to \<open>urlfetch.fetch\<close>, in order. Logging is left out.
\<close>

definition FetchBase :: "world \<Rightarrow> string \<Rightarrow> patch \<Rightarrow> (exn + content) \<times> string list" where
  "FetchBase w base p =
     (let fname = filename p;
          ls = lines p;
          revn = ParseRevision w ls
      in if (case revn of Some r \<Rightarrow> r = 0 | None \<Rightarrow> False) then
           (Inr \<lparr>content_text = Literal [], content_parent = p, is_complete = None\<rparr>, [])
         else if \<not> Link_valid w base then
           (Inl (FetchError (''Invalid base URL: '' @ base)), [])
         else
           (case MakeUrl base fname revn of
              Inl e \<Rightarrow> (Inl e, [])
            | Inr url \<Rightarrow>
                (case urlfetch w url of
                   Inl (cls, err) \<Rightarrow>
                     (Inl (FetchError (''Error fetching '' @ url @ '': '' @ cls @ '': '' @ err)),
                      [url])
                 | Inr result \<Rightarrow>
                     if status_code result \<noteq> 200 then
                       (Inl (FetchError (''Error fetching '' @ url @ '': HTTP status '' @
                                         str_int (status_code result))),
                        [url])
                     else
                       (Inr \<lparr>content_text = ToText w [response_content result],
                             content_parent = p, is_complete = Some True\<rparr>,
                        [url]))))"

section \<open>Generators\<close>

text \<open>
  A generator is modelled by what it yields, in order, and the exception that ended it,
  if one did: a consumer sees the yielded values first and then the exception.
\<close>

type_synonym 'a gen = "'a list \<times> exn option"

definition gen_seq :: "'a gen \<Rightarrow> 'a gen \<Rightarrow> 'a gen" where
  "gen_seq g h = (case snd g of Some e \<Rightarrow> g | None \<Rightarrow> (fst g @ fst h, snd h))"

section \<open>Contracting a run of equal rows\<close>

text \<open>
  \<open>re.match('^<tr( name="hook")? id="pair-(?P<rowcount>\d+)">', t)\<close> followed by
  \<open>int(m.groupdict().get("rowcount"))\<close>: the row id at the start of a rendered row, or
  no match. No other way of matching exists for the pattern: the digits are followed by
  a character that is no digit, and the optional group and the \<open>id\<close> attribute differ in
  their second character.
\<close>

definition strip_prefix :: "string \<Rightarrow> string \<Rightarrow> string option" where
  "strip_prefix p s = (if startswith s p then Some (drop (length p) s) else None)"

definition match_pair_row :: "string \<Rightarrow> nat option" where
  "match_pair_row t =
     (case strip_prefix ''<tr'' t of
        None \<Rightarrow> None
      | Some t1 \<Rightarrow>
          (let t2 = (case strip_prefix '' name=\"hook\"'' t1 of Some r \<Rightarrow> r | None \<Rightarrow> t1)
           in case strip_prefix '' id=\"pair-'' t2 of
                None \<Rightarrow> None
              | Some t3 \<Rightarrow>
                  (let ds = takeWhile is_digit t3;
                       t4 = dropWhile is_digit t3
                   in if ds \<noteq> [] \<and> startswith t4 ''\">'' then Some (int_of_digits ds)
                      else None)))"

text \<open>The loop over the first rows: \<open>last_id\<close> is the id of the last row that matches.\<close>

fun scan_last_id :: "nat option \<Rightarrow> string list \<Rightarrow> nat option" where
  "scan_last_id last_id [] = last_id"
| "scan_last_id last_id (t # ts) =
     scan_last_id (case match_pair_row t of Some n \<Rightarrow> Some n | None \<Rightarrow> last_id) ts"

definition expand_link :: "nat \<Rightarrow> int \<Rightarrow> string" where
  "expand_link last_id skip =
     (let before = str_int (int last_id + 1);
          after = str_int (int last_id + skip);
          skip_arg = str_int (int last_id)
      in if skip \<le> 10 then
           ''<a href=\"javascript:M_expandSkipped('' @ before @ '', '' @ after @
           '', 'b', '' @ skip_arg @ '')\">Show</a>''
         else
           ''<a href=\"javascript:M_expandSkipped('' @ before @ '', '' @ after @
           '', 't', '' @ skip_arg @ '')\">Show 10 above</a> '' @
           ''<a href=\"javascript:M_expandSkipped('' @ before @ '', '' @ after @
           '', 'b', '' @ skip_arg @ '')\">Show 10 below</a> '')"

definition placeholder_row :: "nat \<Rightarrow> int \<Rightarrow> string" where
  "placeholder_row last_id skip =
     ''<tr id=\"skip-'' @ str_int (int last_id) @
     ''\"><td colspan=\"2\" align=\"center\" style=\"background:lightblue\">'' @
     ''(...skipping <span id=\"skipcount-'' @ str_int (int last_id) @ ''\">'' @ str_int skip @
     ''</span> matching lines...) '' @
     ''<span id=\"skiplinks-'' @ str_int (int last_id) @ ''\">'' @ expand_link last_id skip @
     ''</span></td></tr>\<newline>''"

text \<open>
  \<open>ShortenBuffer\<close> yields the first rows while it scans them; \<open>last_id+1\<close> with
  \<open>last_id\<close> still \<open>None\<close> raises \<open>TypeError\<close> before the placeholder is yielded.
\<close>

definition ShortenBuffer :: "string list \<Rightarrow> int \<Rightarrow> string gen" where
  "ShortenBuffer buffer context =
     (if int (length buffer) < 3 * context then (buffer, None)
      else
        (let hd_rows = slice_to buffer context;
             last_id = scan_last_id None hd_rows;
             skip = int (length buffer) - 2 * context
         in case last_id of
              None \<Rightarrow> (hd_rows, Some TypeError)
            | Some a \<Rightarrow>
                (hd_rows @ [placeholder_row a skip] @ slice_from buffer (- context), None)))"

text \<open>
  One expansion action of the placeholder row, as the specification describes it: a link that
  calls \<open>M_expandSkipped(before, after, direction, anchor)\<close>.
\<close>

definition expand_action :: "int \<Rightarrow> int \<Rightarrow> string \<Rightarrow> int \<Rightarrow> string \<Rightarrow> string" where
  "expand_action before after direction anchor label =
     ''<a href=\"javascript:M_expandSkipped('' @ str_int before @ '', '' @ str_int after @
     '', '' @ [CHR 0x27] @ direction @ [CHR 0x27] @ '', '' @ str_int anchor @ '')\">'' @
     label @ ''</a>''"

section \<open>Comments\<close>

text \<open>
  A user is known by its name; \<open>request.user\<close> and \<open>users.get_current_user()\<close> are
  \<open>None\<close> for a visitor who is not signed in. A comment is the record of the properties
  of \<open>models.Comment\<close> that are read here. A dictionary from line numbers to comment
  lists is a map.
\<close>

type_synonym user = string

record comment =
  draft :: bool
  author :: user
  left :: bool
  lineno :: int
  message :: string

type_synonym comment_dict = "int \<rightharpoonup> comment list"


section \<open>Collaborators of the row generator\<close>

type_synonym row = "string \<times> string"
type_synonym triple = "string \<times> string list \<times> string list"
type_synonym out_line = "string \<times> bool \<times> string option"
type_synonym raw_entry = "bool \<times> nat \<times> string"
type_synonym buff_entry = "bool \<times> nat \<times> out_line"

record template_params =
  tp_user :: "user option"
  tp_patch :: patch
  tp_patchset :: patchset
  tp_issue :: nat
  tp_snapshot :: string
  tp_side :: string
  tp_comments :: "comment list"
  tp_lineno :: nat

text \<open>
  The modules \<open>intra_region_diff\<close>, \<open>patching\<close> and \<open>models\<close>, the template loader
  and \<open>difflib\<close> are parameters: \<open>BEGIN_old\<close> and \<open>BEGIN_new\<close> stand for
  \<open>BEGIN_TAG % COLOR_SCHEME[side]['match']\<close> and \<open>complete\<close> for the method
  \<open>Comment.complete\<close>. The types of the diff parameters, of the chunks and of the ratio of
  the intra-region diff are left open.
\<close>

record ('p, 'c, 'r) collab =
  GetDiffParams :: "bool \<Rightarrow> 'p"
  CanDoIRDiff :: "string list \<Rightarrow> string list \<Rightarrow> bool"
  Fold :: "string \<Rightarrow> int \<Rightarrow> int \<Rightarrow> int \<Rightarrow> string"
  IntraRegionDiff :: "string list \<Rightarrow> string list \<Rightarrow> 'p \<Rightarrow> 'c \<times> 'c \<times> 'r"
  RenderIntraRegionDiff ::
    "string list \<Rightarrow> 'c \<Rightarrow> string \<Rightarrow> 'r \<Rightarrow> int \<Rightarrow> int \<Rightarrow> bool \<Rightarrow> out_line list"
  BEGIN_old :: string
  BEGIN_new :: string
  END_TAG :: string
  get_current_user :: "user option"
  ExpandTemplate :: "string \<Rightarrow> template_params \<Rightarrow> string"
  PatchChunks :: "string list \<Rightarrow> chunk list \<Rightarrow> triple list"
  get_opcodes :: "string list \<Rightarrow> string list \<Rightarrow> (string \<times> nat \<times> nat \<times> nat \<times> nat) list"
  complete :: "patch \<Rightarrow> comment \<Rightarrow> comment"


text \<open>\<open>cgi.escape(s)\<close> without the quote flag.\<close>

definition cgi_escape :: "string \<Rightarrow> string" where
  "cgi_escape s =
     concat (map (\<lambda>ch. if ch = CHR ''&'' then ''&amp;''
                        else if ch = CHR ''<'' then ''&lt;''
                        else if ch = CHR ''>'' then ''&gt;''
                        else [ch]) s)"

text \<open>\<open>s.replace('\n', '<br>')\<close>\<close>

definition newlines_to_br :: "string \<Rightarrow> string" where
  "newlines_to_br s = concat (map (\<lambda>ch. if ch = CHR ''\<newline>'' then ''<br>'' else [ch]) s)"

text \<open>\<open>'%*d' % (width, n)\<close>: right-justified, left-justified for a negative width.\<close>

definition format_star_d :: "int \<Rightarrow> nat \<Rightarrow> string" where
  "format_star_d width n =
     (let s = str_nat n
      in if 0 \<le> width then replicate (nat width - length s) CHR '' '' @ s
         else s @ replicate (nat (- width) - length s) CHR '' '')"

section \<open>Rendering one pair of lines\<close>

definition MarkupNumber :: "int \<Rightarrow> nat \<Rightarrow> string \<Rightarrow> string" where
  "MarkupNumber ndigits number tag =
     (let formatted_number = str_nat number;
          space_prefix = replicate (nat (ndigits - int (length formatted_number))) CHR '' ''
      in space_prefix @ ''<'' @ tag @ ''>'' @ formatted_number @ ''</'' @ tag @ ''>'')"

definition RenderDiffColumn ::
  "patch option \<Rightarrow> bool \<Rightarrow> string \<Rightarrow> int \<Rightarrow> nat \<Rightarrow> string \<Rightarrow> string \<Rightarrow> string \<Rightarrow> bool \<Rightarrow> bool \<Rightarrow>
   string \<Rightarrow> string" where
  "RenderDiffColumn p line_valid tag ndigits lno_n begin_tag end_tag intra_diff do_ir_diff
       has_newline prefix =
     (if line_valid then
        (let cls_attr = prefix @ tag;
             lno = (if tag = ''equal'' then format_star_d ndigits lno_n
                    else MarkupNumber ndigits lno_n ''u'');
             (col_content, cls_attr) =
               (if tag = ''replace'' then
                  (begin_tag @ lno @ '' '' @ end_tag @ intra_diff,
                   if \<not> do_ir_diff \<or> \<not> has_newline then cls_attr @ ''1'' else cls_attr)
                else (lno @ '' '' @ intra_diff, cls_attr))
         in ''<td class=\"'' @ cls_attr @ ''\" id=\"'' @ prefix @ ''code'' @ str_nat lno_n @
            ''\">'' @ col_content @ ''</td>'')
      else ''<td class=\"'' @ prefix @ ''blank\"></td>'')"

text \<open>
  \<open>patch.patchset\<close> on a patch that is \<open>None\<close> raises \<open>AttributeError\<close>; it is only
  evaluated when the line has comments.
\<close>

definition RenderInlineComments ::
  "('p, 'c, 'r) collab \<Rightarrow> bool \<Rightarrow> nat \<Rightarrow> comment_dict \<Rightarrow> user option \<Rightarrow> patch option \<Rightarrow>
   string \<Rightarrow> string \<Rightarrow> exn + string" where
  "RenderInlineComments c line_valid lno_n data usr p snapshot prefix =
     (if line_valid then
        (case data (int lno_n) of
           None \<Rightarrow>
             Inr (''<td id=\"'' @ prefix @ ''-line-'' @ str_nat lno_n @ ''\">'' @ ''</td>'')
         | Some cs \<Rightarrow>
             (case p of
                None \<Rightarrow> Inl AttributeError
              | Some pt \<Rightarrow>
                  Inr (''<td id=\"'' @ prefix @ ''-line-'' @ str_nat lno_n @ ''\">'' @
                       ExpandTemplate c ''inline_comment.html''
                         \<lparr>tp_user = usr, tp_patch = pt, tp_patchset = patch_patchset pt,
                          tp_issue = issue (patch_patchset pt), tp_snapshot = snapshot,
                          tp_side = (if prefix = ''old'' then ''a'' else ''b''),
                          tp_comments = cs, tp_lineno = lno_n\<rparr> @
                       ''</td>'')))
      else Inr ''<td></td>'')"

definition debug_column :: "string option \<Rightarrow> string" where
  "debug_column debug_info =
     (case debug_info of
        Some d \<Rightarrow>
          if d \<noteq> [] then ''<td class=\"debug-info\">'' @ newlines_to_br d @ ''</td>''
          else ''<td></td>''
      | None \<Rightarrow> ''<td></td>'')"

text \<open>
  The body of the loop of \<open>RenderDiffInternal\<close> for one index: the tag and the joined
  fragments it yields, or the exception it raises before the yield.
\<close>

definition render_pair ::
  "('p, 'c, 'r) collab \<Rightarrow> buff_entry \<Rightarrow> buff_entry \<Rightarrow> int \<Rightarrow> string \<Rightarrow> string list \<Rightarrow> bool \<Rightarrow>
   comment_dict \<Rightarrow> comment_dict \<Rightarrow> patch option \<Rightarrow> patch option \<Rightarrow> string \<Rightarrow> string \<Rightarrow>
   int \<Rightarrow> bool \<Rightarrow> exn + row" where
  "render_pair c ob nb ndigits tag frags do_ir_diff old_dict new_dict old_patch new_patch
       old_snapshot new_snapshot colwidth debug =
     (case (ob, nb) of
        ((old_valid, old_lineno, old_intra_diff, old_has_newline, old_debug_info),
         (new_valid, new_lineno, new_intra_diff, new_has_newline, new_debug_info)) \<Rightarrow>
       (let tg = tag;
            frags = frags @
              [RenderDiffColumn old_patch old_valid tag ndigits old_lineno (BEGIN_old c)
                 (END_TAG c) old_intra_diff do_ir_diff old_has_newline ''old'',
               RenderDiffColumn new_patch new_valid tag ndigits new_lineno (BEGIN_new c)
                 (END_TAG c) new_intra_diff do_ir_diff new_has_newline ''new'',
               ''</tr>\<newline>''];
            frags = (if debug then
                       frags @ [''<tr>'', debug_column old_debug_info,
                                debug_column new_debug_info, ''</tr>\<newline>'']
                     else frags)
        in if old_patch \<noteq> None \<or> new_patch \<noteq> None then
             (let has_comments =
                    ((old_valid \<and> old_dict (int old_lineno) \<noteq> None) \<or>
                     (new_valid \<and> new_dict (int new_lineno) \<noteq> None));
                  tg = (if has_comments then tg @ ''_comment'' else tg);
                  frags = frags @
                    [if has_comments then ''<tr class=\"inline-comments\" name=\"hook\">''
                     else ''<tr class=\"inline-comments\">'']
              in case RenderInlineComments c old_valid old_lineno old_dict
                        (get_current_user c) old_patch old_snapshot ''old'' of
                   Inl e \<Rightarrow> Inl e
                 | Inr old_comments \<Rightarrow>
                     (case RenderInlineComments c new_valid new_lineno new_dict
                             (get_current_user c) new_patch new_snapshot ''new'' of
                        Inl e \<Rightarrow> Inl e
                      | Inr new_comments \<Rightarrow>
                          Inr (tg, concat (frags @
                                 [old_comments, new_comments, ''</tr>\<newline>'']))))
           else Inr (tg, concat frags)))"

text \<open>
  \<open>RenderDiffInternal\<close> runs over the indices of \<open>old_buff\<close> and reads \<open>new_buff\<close> and
  \<open>frag_list\<close> at the same index: a shorter one raises \<open>IndexError\<close>.
\<close>

fun RenderDiffInternal ::
  "('p, 'c, 'r) collab \<Rightarrow> buff_entry list \<Rightarrow> buff_entry list \<Rightarrow> int \<Rightarrow> string \<Rightarrow>
   string list list \<Rightarrow> bool \<Rightarrow> comment_dict \<Rightarrow> comment_dict \<Rightarrow> patch option \<Rightarrow> patch option \<Rightarrow>
   string \<Rightarrow> string \<Rightarrow> int \<Rightarrow> bool \<Rightarrow> row gen" where
  "RenderDiffInternal c [] new_buff ndigits tag frag_list do_ir_diff old_dict new_dict
       old_patch new_patch old_snapshot new_snapshot colwidth debug = ([], None)"
| "RenderDiffInternal c (ob # old_buff) (nb # new_buff) ndigits tag (frags # frag_list)
       do_ir_diff old_dict new_dict old_patch new_patch old_snapshot new_snapshot colwidth
       debug =
     (case render_pair c ob nb ndigits tag frags do_ir_diff old_dict new_dict old_patch
             new_patch old_snapshot new_snapshot colwidth debug of
        Inl e \<Rightarrow> ([], Some e)
      | Inr r \<Rightarrow>
          gen_seq ([r], None)
            (RenderDiffInternal c old_buff new_buff ndigits tag frag_list do_ir_diff
               old_dict new_dict old_patch new_patch old_snapshot new_snapshot colwidth
               debug))"
| "RenderDiffInternal c (ob # old_buff) new_buff ndigits tag frag_list do_ir_diff old_dict
       new_dict old_patch new_patch old_snapshot new_snapshot colwidth debug =
     ([], Some IndexError)"

section \<open>The row generator\<close>

definition gen_concat :: "'a gen list \<Rightarrow> 'a gen" where
  "gen_concat gs = foldr gen_seq gs ([], None)"

text \<open>The start of a code row: the opening tag, marked as a hook or not, and the row id.\<close>

definition row_frags :: "string \<Rightarrow> nat \<Rightarrow> nat \<Rightarrow> string list" where
  "row_frags tag i row_count =
     [if i = 0 \<and> tag \<noteq> ''equal'' then ''<tr name=\"hook\"'' else ''<tr'',
      '' id=\"pair-'' @ str_nat row_count @ ''\">'']"

text \<open>The validity, the line number and the text of one side at index \<open>i\<close> of a triple.\<close>

definition side_entry :: "nat \<Rightarrow> string list \<Rightarrow> nat \<Rightarrow> raw_entry" where
  "side_entry off1 side i =
     (let off2 = off1 + length side;
          lno_n = off1 + i + 1;
          valid = (off1 + i < off2);
          intra_diff = (if valid then side ! i else [])
      in (valid, lno_n, intra_diff))"

text \<open>
  \<open>for (i, b) in enumerate(buff): b[2] = diff_out[i]\<close>; the caller has checked that
  \<open>diff_out\<close> is not the shorter list.
\<close>

definition substitute_out :: "raw_entry list \<Rightarrow> out_line list \<Rightarrow> buff_entry list" where
  "substitute_out buff diff_out = map (\<lambda>((valid, lno_n, raw), out). (valid, lno_n, out)) (zip buff diff_out)"

text \<open>
  The body of the loop over the triples for one triple that is no error, with the
  offsets and the row count before it: a triple that is not diffed within the region
  yields each row as it is rendered, one that is diffed yields its rows at the end.
\<close>

definition render_triple ::
  "('p, 'c, 'r) collab \<Rightarrow> patch option \<Rightarrow> comment_dict \<Rightarrow> string \<Rightarrow> patch option \<Rightarrow>
   comment_dict \<Rightarrow> string \<Rightarrow> int \<Rightarrow> bool \<Rightarrow> 'p \<Rightarrow> int \<Rightarrow> int \<Rightarrow> nat \<times> nat \<times> nat \<Rightarrow> triple \<Rightarrow>
   row gen" where
  "render_triple c old_patch old_dict old_snapshot new_patch new_dict new_snapshot colwidth
       debug diff_params ndigits indent st tr =
     (case (st, tr) of ((old_offset, new_offset, row_count), (tag, old, new)) \<Rightarrow>
       (let old1 = old_offset;
            new1 = new_offset;
            do_ir_diff = (tag = ''replace'' \<and> CanDoIRDiff c old new);
            n = max (length old) (length new)
        in if \<not> do_ir_diff then
             gen_concat
               (map (\<lambda>i.
                  (case (side_entry old1 old i, side_entry new1 new i) of
                     ((old_valid, old_lineno, old_intra_diff),
                      (new_valid, new_lineno, new_intra_diff)) \<Rightarrow>
                       RenderDiffInternal c
                         [(old_valid, old_lineno,
                           (Fold c old_intra_diff (colwidth + indent) indent indent, True, None))]
                         [(new_valid, new_lineno,
                           (Fold c new_intra_diff (colwidth + indent) indent indent, True, None))]
                         ndigits tag [row_frags tag i (row_count + i + 1)] do_ir_diff
                         old_dict new_dict old_patch new_patch old_snapshot new_snapshot
                         colwidth debug))
                  [0..<n])
           else
             (let old_buff = map (side_entry old1 old) [0..<n];
                  new_buff = map (side_entry new1 new) [0..<n];
                  frag_list = map (\<lambda>i. row_frags tag i (row_count + i + 1)) [0..<n];
                  old_lines = map (\<lambda>b. snd (snd b)) old_buff;
                  new_lines = map (\<lambda>b. snd (snd b)) new_buff;
                  (old_chunks, new_chunks, ratio) =
                    IntraRegionDiff c old_lines new_lines diff_params;
                  old_diff_out =
                    RenderIntraRegionDiff c old_lines old_chunks ''old'' ratio colwidth indent
                      debug;
                  new_diff_out =
                    RenderIntraRegionDiff c new_lines new_chunks ''new'' ratio colwidth indent
                      debug
              in if length old_diff_out < length old_buff \<or>
                    length new_diff_out < length new_buff
                 then ([], Some IndexError)
                 else
                   RenderDiffInternal c (substitute_out old_buff old_diff_out)
                     (substitute_out new_buff new_diff_out) ndigits tag frag_list do_ir_diff
                     old_dict new_dict old_patch new_patch old_snapshot new_snapshot colwidth
                     debug)))"

text \<open>
  The loop over the triples: an error triple yields its row and returns; any other
  triple yields its rows and moves the offsets and the row count on.
\<close>

fun render_triples ::
  "('p, 'c, 'r) collab \<Rightarrow> patch option \<Rightarrow> comment_dict \<Rightarrow> string \<Rightarrow> patch option \<Rightarrow>
   comment_dict \<Rightarrow> string \<Rightarrow> int \<Rightarrow> bool \<Rightarrow> 'p \<Rightarrow> int \<Rightarrow> int \<Rightarrow> nat \<times> nat \<times> nat \<Rightarrow>
   triple list \<Rightarrow> row gen" where
  "render_triples c old_patch old_dict old_snapshot new_patch new_dict new_snapshot colwidth
       debug diff_params ndigits indent st [] = ([], None)"
| "render_triples c old_patch old_dict old_snapshot new_patch new_dict new_snapshot colwidth
       debug diff_params ndigits indent st (tr # rest) =
     (case (st, tr) of ((old_offset, new_offset, row_count), (tag, old, new)) \<Rightarrow>
        if startswith tag ''error'' then
          ([(''error'', ''<tr><td><h3>'' @ cgi_escape tag @ ''</h3></td></tr>\<newline>'')], None)
        else
          gen_seq
            (render_triple c old_patch old_dict old_snapshot new_patch new_dict new_snapshot
               colwidth debug diff_params ndigits indent st tr)
            (render_triples c old_patch old_dict old_snapshot new_patch new_dict new_snapshot
               colwidth debug diff_params ndigits indent
               (old_offset + length old, new_offset + length new,
                row_count + max (length old) (length new))
               rest))"

text \<open>
  The row with a message, before the loop. \<open>old_patch.lines\<close> is evaluated only when the
  two patches differ, and raises \<open>AttributeError\<close> on \<open>None\<close>.
\<close>

definition info_rows :: "patch option \<Rightarrow> int \<Rightarrow> patch option \<Rightarrow> int \<Rightarrow> row gen" where
  "info_rows old_patch old_max new_patch new_max =
     (if old_patch = new_patch \<and> (old_max = 0 \<or> new_max = 0) then
        (let msg_old = (if old_max = 0 then ''(Empty)'' else []);
             msg_new = (if new_max = 0 then ''(Empty)'' else [])
         in ([([], ''<tr><td class=\"info\">'' @ msg_old @ ''</td>'' @
                   ''<td class=\"info\">'' @ msg_new @ ''</td></tr>'')], None))
      else if old_patch \<noteq> new_patch then
        (case (old_patch, new_patch) of
           (Some op, Some np) \<Rightarrow>
             if lines op = lines np then
               ([([], ''<tr><td class=\"info\" colspan=\"2\">'' @
                      ''(Both sides are equal)</td></tr>'')], None)
             else ([], None)
         | _ \<Rightarrow> ([], Some AttributeError))
      else ([], None))"

definition TableRowGenerator ::
  "('p, 'c, 'r) collab \<Rightarrow> patch option \<Rightarrow> comment_dict \<Rightarrow> int \<Rightarrow> string \<Rightarrow> patch option \<Rightarrow>
   comment_dict \<Rightarrow> int \<Rightarrow> string \<Rightarrow> triple list \<Rightarrow> int \<Rightarrow> bool \<Rightarrow> row gen" where
  "TableRowGenerator c old_patch old_dict old_max old_snapshot new_patch new_dict new_max
       new_snapshot triple_iterator colwidth debug =
     (let diff_params = GetDiffParams c debug;
          ndigits = 1 + max (int (length (str_int old_max))) (int (length (str_int new_max)));
          indent = 1 + ndigits;
          st = (0, 0, 0)
      in gen_seq (info_rows old_patch old_max new_patch new_max)
           (render_triples c old_patch old_dict old_snapshot new_patch new_dict new_snapshot
              colwidth debug diff_params ndigits indent st triple_iterator))"

section \<open>Cleaning up the rows\<close>

text \<open>
  The loop of \<open>CleanupTableRowsGenerator\<close> over the rows, with the buffer of equal rows:
  it is lazy in the rows, so the exception that ended the row generator is met only
  when the rows run out, and leaves the buffer unflushed. After an error row the loop
  breaks with an empty buffer. The sentinel is \<open>None\<close>, a row is \<open>Some\<close> text.
\<close>

definition yield_rows :: "string gen \<Rightarrow> string option gen" where
  "yield_rows g = (map Some (fst g), snd g)"

fun cleanup_loop :: "int \<Rightarrow> string list \<Rightarrow> row list \<Rightarrow> exn option \<Rightarrow> string option gen" where
  "cleanup_loop context buffer [] ended =
     (case ended of
        Some e \<Rightarrow> ([], Some e)
      | None \<Rightarrow>
          if buffer \<noteq> [] then yield_rows (ShortenBuffer buffer context) else ([], None))"
| "cleanup_loop context buffer ((tag, txt) # rows) ended =
     (if tag = ''equal'' then cleanup_loop context (buffer @ [txt]) rows ended
      else
        gen_seq (yield_rows (ShortenBuffer buffer context))
          (gen_seq ([Some txt], None)
             (if tag = ''error'' then ([None], None)
              else cleanup_loop context [] rows ended)))"

definition CleanupTableRowsGenerator :: "row gen \<Rightarrow> int \<Rightarrow> string option gen" where
  "CleanupTableRowsGenerator rows context = cleanup_loop context [] (fst rows) (snd rows)"

section \<open>The two renderings\<close>









section \<open>Row ids and line pairs\<close>

text \<open>
  The row ids of a list of rows, read off the rows in order as \<open>ShortenBuffer\<close> reads
  them; the number of line pairs of the triples up to the first error triple; rows that
  carry consecutive ids after \<open>rc\<close>; rows that carry the tag of their triple.
\<close>

definition pair_ids :: "row list \<Rightarrow> nat list" where
  "pair_ids rows = List.map_filter (\<lambda>r. match_pair_row (snd r)) rows"

fun line_pairs :: "triple list \<Rightarrow> nat" where
  "line_pairs [] = 0"
| "line_pairs ((tag, old, new) # rest) =
     (if startswith tag ''error'' then 0
      else max (length old) (length new) + line_pairs rest)"

fun numbered :: "nat \<Rightarrow> row list \<Rightarrow> bool" where
  "numbered rc [] = True"
| "numbered rc (r # rows) = (match_pair_row (snd r) = Some (Suc rc) \<and> numbered (Suc rc) rows)"

definition tagged :: "string \<Rightarrow> row list \<Rightarrow> bool" where
  "tagged tag rows = list_all (\<lambda>r. fst r = tag \<or> fst r = tag @ ''_comment'') rows"


section \<open>Sample inputs\<close>

text \<open>
  Collaborators and patches on which the model is evaluated: no intra-region diff, no
  folding, a template that joins the messages of the comments.
\<close>

definition sample_collab :: "(unit, unit, unit) collab" where
  "sample_collab = \<lparr>GetDiffParams = (\<lambda>d. ()), CanDoIRDiff = (\<lambda>a b. False),
     Fold = (\<lambda>s w i j. s), IntraRegionDiff = (\<lambda>a b p. ((), (), ())),
     RenderIntraRegionDiff = (\<lambda>ls ch t r w i d. map (\<lambda>l. (l, True, None)) ls),
     BEGIN_old = ''<b>'', BEGIN_new = ''<b>'', END_TAG = ''</b>'', get_current_user = None,
     ExpandTemplate = (\<lambda>n p. concat (map message (tp_comments p))),
     PatchChunks = (\<lambda>ls cs. [(''equal'', ls, ls)]),
     get_opcodes = (\<lambda>a b. [(''equal'', 0, length a, 0, length b)]),
     complete = (\<lambda>p c. c)\<rparr>"

definition sample_patch :: "nat \<Rightarrow> patch" where
  "sample_patch n =
     \<lparr>patch_id = n, patch_patchset = \<lparr>patchset_id = n, issue = 1\<rparr>, filename = ''a.py'',
      lines = [''+a'']\<rparr>"

section \<open>Visibility of comments\<close>






section \<open>Comments in the rendered rows\<close>





section \<open>Line counts: the estimator's contract\<close>

text \<open>
  C7. For every old line list and chunk list the estimator returns the length of the old
  list as the old count, and as the new count the old count plus the difference of the
  range ends (new minus old) of the last chunk, or the old count itself when there is no
  chunk. It is a total function: it returns a pair on every input.
\<close>

theorem ComputeLineCounts_contract:
  "ComputeLineCounts old_lines chunks =
     (int (length old_lines),
      (if chunks = [] then int (length old_lines)
       else int (length old_lines) +
            (snd (fst (snd (last chunks))) - snd (fst (last chunks)))))"
  by (simp add: ComputeLineCounts_def Let_def split: prod.splits)

theorem ComputeLineCounts_contract_witness:
  "ComputeLineCounts [''a'', ''b'', ''c''] [((0, 1), (0, 1), [''a''], [''x'']), ((2, 3), (2, 5), [''c''], [''y'', ''z'', ''w''])] = (3, 5)
   \<and> ComputeLineCounts [''a'', ''b''] [] = (2, 2)"
  using ComputeLineCounts_contract [of "[''a'', ''b'', ''c'']" "[((0, 1), (0, 1), [''a''], [''x'']), ((2, 3), (2, 5), [''c''], [''y'', ''z'', ''w''])]"]
    ComputeLineCounts_contract [of "[''a'', ''b'']" "[]"]
  by simp

section \<open>The URL forms\<close>

lemma urlparse_googlecode_example:
  "urlparse ''https://x.googlecode.com/svn/proj'' =
     Inr (''https'', ''x.googlecode.com'', ''/svn/proj'', [], [], [])"
  by (simp add: urlparse_def urlsplit_def Let_def splitnetloc_def scheme_chars_def
      is_digit_def lower_char_def uses_params_def)

text \<open>
  C9. With base \<open>https://x.googlecode.com/svn/proj\<close>, filename \<open>a.py\<close> and revision 5,
  \<open>MakeUrl\<close> returns exactly \<open>https://x.googlecode.com/svn-history/r5/proj/a.py\<close>. For a
  base whose network location does not end in \<open>.googlecode.com\<close>, the result is the base,
  a \<open>/\<close> if the base does not end in one, the filename, and \<open>?rev=<rev>\<close> exactly when
  a revision is given.
\<close>

theorem MakeUrl_forms:
  "MakeUrl ''https://x.googlecode.com/svn/proj'' ''a.py'' (Some 5) =
     Inr ''https://x.googlecode.com/svn-history/r5/proj/a.py''
   \<and> (urlparse base = Inr (scheme, netloc, path, params, query, fragment) \<longrightarrow>
        \<not> endswith netloc ''.googlecode.com'' \<longrightarrow>
        MakeUrl base fname revn =
          Inr (base @ (if endswith base ''/'' then [] else ''/'') @ fname @
               (case revn of None \<Rightarrow> [] | Some r \<Rightarrow> ''?rev='' @ str_int r)))"
proof -
  have example:
    "MakeUrl ''https://x.googlecode.com/svn/proj'' ''a.py'' (Some 5) =
       Inr ''https://x.googlecode.com/svn-history/r5/proj/a.py''"
    by (simp add: MakeUrl_def urlparse_googlecode_example endswith_def startswith_def
        str_int_def str_nat.simps digit_char_def)
  have generic:
    "MakeUrl base fname revn =
       Inr (base @ (if endswith base ''/'' then [] else ''/'') @ fname @
            (case revn of None \<Rightarrow> [] | Some r \<Rightarrow> ''?rev='' @ str_int r))"
    if "urlparse base = Inr (scheme, netloc, path, params, query, fragment)"
      and "\<not> endswith netloc ''.googlecode.com''"
    using that by (simp add: MakeUrl_def Let_def split: option.splits)
  from example generic show ?thesis by blast
qed

lemma urlparse_viewvc_example:
  "urlparse ''http://svn.python.org/trunk'' =
     Inr (''http'', ''svn.python.org'', ''/trunk'', [], [], [])"
  by (simp add: urlparse_def urlsplit_def Let_def splitnetloc_def scheme_chars_def
      is_digit_def lower_char_def uses_params_def)

theorem MakeUrl_forms_witness:
  "urlparse ''http://svn.python.org/trunk'' =
     Inr (''http'', ''svn.python.org'', ''/trunk'', [], [], [])
   \<and> \<not> endswith ''svn.python.org'' ''.googlecode.com''
   \<and> MakeUrl ''http://svn.python.org/trunk'' ''a.py'' (Some 5) =
       Inr ''http://svn.python.org/trunk/a.py?rev=5''
   \<and> MakeUrl ''http://svn.python.org/trunk'' ''a.py'' None =
       Inr ''http://svn.python.org/trunk/a.py''"
  using MakeUrl_forms [of "''http://svn.python.org/trunk''" "''http''" "''svn.python.org''"
      "''/trunk''" "[]" "[]" "[]" "''a.py''" "Some 5"]
    MakeUrl_forms [of "''http://svn.python.org/trunk''" "''http''" "''svn.python.org''"
      "''/trunk''" "[]" "[]" "[]" "''a.py''" "None"]
  by (simp add: urlparse_viewvc_example endswith_def str_int_def str_nat.simps digit_char_def)

section \<open>Fetch errors\<close>

text \<open>
  C8. When the revision parsed from the patch is 0, \<open>FetchBase\<close> returns empty content
  and fetches no URL. Otherwise it raises \<open>FetchError\<close> exactly when the base URL is
  refused, or the fetch of the URL it built raises, or the response's status is not 200;
  the error carries a message that names the base or the URL, and no more than one
  fetch is made.
\<close>

lemma urlsplit_Inl: "urlsplit u = Inl e \<Longrightarrow> e = ValueError"
  by (simp add: urlsplit_def Let_def split_beta split: if_splits)

lemma urlparse_Inl: "urlparse u = Inl e \<Longrightarrow> e = ValueError"
  by (auto simp: urlparse_def Let_def split_beta split: sum.splits dest: urlsplit_Inl)

lemma MakeUrl_Inl: "MakeUrl b f r = Inl e \<Longrightarrow> e \<noteq> FetchError msg"
  by (auto simp: MakeUrl_def Let_def split: sum.splits prod.splits if_splits option.splits
      dest: urlparse_Inl)

lemma rev_guard:
  "r \<noteq> Some (0::int) \<Longrightarrow> \<not> (case r of Some r \<Rightarrow> r = 0 | None \<Rightarrow> False)"
  by (cases r) auto

theorem FetchBase_errors:
  "(ParseRevision w (lines p) = Some 0 \<longrightarrow>
      FetchBase w base p =
        (Inr \<lparr>content_text = Literal [], content_parent = p, is_complete = None\<rparr>, []))
   \<and> (ParseRevision w (lines p) \<noteq> Some 0 \<longrightarrow>
        ((\<exists>msg. fst (FetchBase w base p) = Inl (FetchError msg)) \<longleftrightarrow>
           (\<not> Link_valid w base \<or>
            (\<exists>url. MakeUrl base (filename p) (ParseRevision w (lines p)) = Inr url \<and>
               ((\<exists>e. urlfetch w url = Inl e) \<or>
                (\<exists>r. urlfetch w url = Inr r \<and> status_code r \<noteq> 200)))))
        \<and> (\<not> Link_valid w base \<longrightarrow>
             FetchBase w base p = (Inl (FetchError (''Invalid base URL: '' @ base)), []))
        \<and> (\<forall>url cls err. Link_valid w base \<longrightarrow>
              MakeUrl base (filename p) (ParseRevision w (lines p)) = Inr url \<longrightarrow>
              urlfetch w url = Inl (cls, err) \<longrightarrow>
              FetchBase w base p =
                (Inl (FetchError (''Error fetching '' @ url @ '': '' @ cls @ '': '' @ err)), [url]))
        \<and> (\<forall>url r. Link_valid w base \<longrightarrow>
              MakeUrl base (filename p) (ParseRevision w (lines p)) = Inr url \<longrightarrow>
              urlfetch w url = Inr r \<longrightarrow> status_code r \<noteq> 200 \<longrightarrow>
              FetchBase w base p =
                (Inl (FetchError (''Error fetching '' @ url @ '': HTTP status '' @
                                  str_int (status_code r))), [url])))
   \<and> length (snd (FetchBase w base p)) \<le> 1"
proof (intro conjI impI allI)
  assume "ParseRevision w (lines p) = Some 0"
  then show "FetchBase w base p =
      (Inr \<lparr>content_text = Literal [], content_parent = p, is_complete = None\<rparr>, [])"
    by (simp add: FetchBase_def)
next
  assume nz: "ParseRevision w (lines p) \<noteq> Some 0"
  then have g: "\<not> (case ParseRevision w (lines p) of Some r \<Rightarrow> r = 0 | None \<Rightarrow> False)"
    by (rule rev_guard)
  show "(\<exists>msg. fst (FetchBase w base p) = Inl (FetchError msg)) \<longleftrightarrow>
      (\<not> Link_valid w base \<or>
       (\<exists>url. MakeUrl base (filename p) (ParseRevision w (lines p)) = Inr url \<and>
          ((\<exists>e. urlfetch w url = Inl e) \<or>
           (\<exists>r. urlfetch w url = Inr r \<and> status_code r \<noteq> 200))))"
  proof (cases "Link_valid w base")
    case False
    with g show ?thesis by (simp add: FetchBase_def Let_def)
  next
    case True
    show ?thesis
    proof (cases "MakeUrl base (filename p) (ParseRevision w (lines p))")
      case (Inl e)
      have "e \<noteq> FetchError msg" for msg
        using Inl by (rule MakeUrl_Inl)
      with g True Inl show ?thesis by (simp add: FetchBase_def Let_def)
    next
      case (Inr url)
      with g True show ?thesis
        by (cases "urlfetch w url") (auto simp: FetchBase_def Let_def)
    qed
  qed
next
  assume nz: "ParseRevision w (lines p) \<noteq> Some 0" and "\<not> Link_valid w base"
  with rev_guard [OF nz]
  show "FetchBase w base p = (Inl (FetchError (''Invalid base URL: '' @ base)), [])"
    by (simp add: FetchBase_def Let_def)
next
  fix url cls err
  assume nz: "ParseRevision w (lines p) \<noteq> Some 0" and "Link_valid w base"
    and "MakeUrl base (filename p) (ParseRevision w (lines p)) = Inr url"
    and "urlfetch w url = Inl (cls, err)"
  with rev_guard [OF nz]
  show "FetchBase w base p =
      (Inl (FetchError (''Error fetching '' @ url @ '': '' @ cls @ '': '' @ err)), [url])"
    by (simp add: FetchBase_def Let_def)
next
  fix url r
  assume nz: "ParseRevision w (lines p) \<noteq> Some 0" and "Link_valid w base"
    and "MakeUrl base (filename p) (ParseRevision w (lines p)) = Inr url"
    and "urlfetch w url = Inr r" and "status_code r \<noteq> 200"
  with rev_guard [OF nz]
  show "FetchBase w base p =
      (Inl (FetchError (''Error fetching '' @ url @ '': HTTP status '' @
                        str_int (status_code r))), [url])"
    by (simp add: FetchBase_def Let_def)
next
  show "length (snd (FetchBase w base p)) \<le> 1"
    by (simp add: FetchBase_def Let_def split: option.splits sum.splits prod.splits)
qed

lemma MakeUrl_viewvc_rev5:
  "MakeUrl ''http://svn.python.org/trunk'' ''a.py'' (Some 5) =
     Inr ''http://svn.python.org/trunk/a.py?rev=5''"
  by (simp add: MakeUrl_def urlparse_viewvc_example endswith_def str_int_def str_nat.simps
      digit_char_def)

theorem FetchBase_errors_witness:
  "FetchBase \<lparr>ParseRevision = (\<lambda>ls. Some 0), Link_valid = (\<lambda>b. True),
              urlfetch = (\<lambda>u. Inl (''DownloadError'', ''timeout'')), decodes_utf8 = (\<lambda>b. True)\<rparr>
     ''http://svn.python.org/trunk''
     \<lparr>patch_id = 1, patch_patchset = \<lparr>patchset_id = 1, issue = 1\<rparr>, filename = ''a.py'',
      lines = []\<rparr>
   = (Inr \<lparr>content_text = Literal [],
           content_parent = \<lparr>patch_id = 1, patch_patchset = \<lparr>patchset_id = 1, issue = 1\<rparr>,
                             filename = ''a.py'', lines = []\<rparr>,
           is_complete = None\<rparr>, [])
   \<and> FetchBase \<lparr>ParseRevision = (\<lambda>ls. Some 5), Link_valid = (\<lambda>b. True),
              urlfetch = (\<lambda>u. Inr \<lparr>status_code = 404, response_content = []\<rparr>),
              decodes_utf8 = (\<lambda>b. True)\<rparr>
     ''http://svn.python.org/trunk''
     \<lparr>patch_id = 1, patch_patchset = \<lparr>patchset_id = 1, issue = 1\<rparr>, filename = ''a.py'',
      lines = []\<rparr>
   = (Inl (FetchError (''Error fetching '' @ ''http://svn.python.org/trunk/a.py?rev=5'' @
                       '': HTTP status '' @ str_int 404)),
      [''http://svn.python.org/trunk/a.py?rev=5''])
   \<and> FetchBase \<lparr>ParseRevision = (\<lambda>ls. None), Link_valid = (\<lambda>b. False),
              urlfetch = (\<lambda>u. Inr \<lparr>status_code = 200, response_content = []\<rparr>),
              decodes_utf8 = (\<lambda>b. True)\<rparr>
     ''trunk''
     \<lparr>patch_id = 1, patch_patchset = \<lparr>patchset_id = 1, issue = 1\<rparr>, filename = ''a.py'',
      lines = []\<rparr>
   = (Inl (FetchError (''Invalid base URL: '' @ ''trunk'')), [])"
  using
    FetchBase_errors [of "\<lparr>ParseRevision = (\<lambda>ls. Some 0), Link_valid = (\<lambda>b. True),
              urlfetch = (\<lambda>u. Inl (''DownloadError'', ''timeout'')), decodes_utf8 = (\<lambda>b. True)\<rparr>"
      "\<lparr>patch_id = 1, patch_patchset = \<lparr>patchset_id = 1, issue = 1\<rparr>, filename = ''a.py'',
        lines = []\<rparr>" "''http://svn.python.org/trunk''"]
    FetchBase_errors [of "\<lparr>ParseRevision = (\<lambda>ls. Some 5), Link_valid = (\<lambda>b. True),
              urlfetch = (\<lambda>u. Inr \<lparr>status_code = 404, response_content = []\<rparr>),
              decodes_utf8 = (\<lambda>b. True)\<rparr>"
      "\<lparr>patch_id = 1, patch_patchset = \<lparr>patchset_id = 1, issue = 1\<rparr>, filename = ''a.py'',
        lines = []\<rparr>" "''http://svn.python.org/trunk''"]
    FetchBase_errors [of "\<lparr>ParseRevision = (\<lambda>ls. None), Link_valid = (\<lambda>b. False),
              urlfetch = (\<lambda>u. Inr \<lparr>status_code = 200, response_content = []\<rparr>),
              decodes_utf8 = (\<lambda>b. True)\<rparr>"
      "\<lparr>patch_id = 1, patch_patchset = \<lparr>patchset_id = 1, issue = 1\<rparr>, filename = ''a.py'',
        lines = []\<rparr>" "''trunk''"]
  by (simp add: MakeUrl_viewvc_rev5)

section \<open>The row id at the start of a rendered row\<close>

lemma digit_cases: "d < 10 \<Longrightarrow> d \<in> {0, 1, 2, 3, 4, 5, 6, 7, 8, 9::nat}"
  by auto

lemma is_digit_digit_char: "d < 10 \<Longrightarrow> is_digit (digit_char d)"
  by (drule digit_cases) (auto simp: is_digit_def digit_char_def)

lemma digit_val_digit_char: "d < 10 \<Longrightarrow> digit_val (digit_char d) = d"
  by (drule digit_cases) (auto simp: digit_val_def digit_char_def)

lemma str_nat_digits: "list_all is_digit (str_nat n)"
  by (induction n rule: str_nat.induct) (subst str_nat.simps, simp add: is_digit_digit_char)

lemma str_nat_nonempty: "str_nat n \<noteq> []"
  by (subst str_nat.simps) simp

lemma int_of_digits_snoc: "int_of_digits (ds @ [c]) = 10 * int_of_digits ds + digit_val c"
  by (simp add: int_of_digits_def)

lemma int_of_digits_str_nat: "int_of_digits (str_nat n) = n"
proof (induction n rule: str_nat.induct)
  case (1 n)
  show ?case
  proof (cases "n < 10")
    case True
    then show ?thesis
      by (subst str_nat.simps) (simp add: int_of_digits_def digit_val_digit_char)
  next
    case False
    with 1 show ?thesis
      by (subst str_nat.simps) (simp add: int_of_digits_snoc digit_val_digit_char)
  qed
qed

lemma takeWhile_str_nat:
  "\<not> is_digit c \<Longrightarrow> takeWhile is_digit (str_nat n @ c # rest) = str_nat n"
  using str_nat_digits [of n] by (simp add: list_all_iff takeWhile_append2)

lemma dropWhile_str_nat:
  "\<not> is_digit c \<Longrightarrow> dropWhile is_digit (str_nat n @ c # rest) = c # rest"
  using str_nat_digits [of n] by (simp add: list_all_iff dropWhile_append2)

lemma match_pair_row_plain:
  "match_pair_row (''<tr'' @ '' id=\"pair-'' @ str_nat n @ ''\">'' @ rest) = Some n"
  by (simp add: match_pair_row_def strip_prefix_def startswith_def Let_def
      takeWhile_str_nat dropWhile_str_nat is_digit_def str_nat_nonempty int_of_digits_str_nat)

lemma match_pair_row_hook:
  "match_pair_row (''<tr name=\"hook\"'' @ '' id=\"pair-'' @ str_nat n @ ''\">'' @ rest) = Some n"
  by (simp add: match_pair_row_def strip_prefix_def startswith_def Let_def
      takeWhile_str_nat dropWhile_str_nat is_digit_def str_nat_nonempty int_of_digits_str_nat)

section \<open>The contraction rule\<close>

lemma scan_last_id_None:
  "scan_last_id l ts = None \<longleftrightarrow> (l = None \<and> (\<forall>t\<in>set ts. match_pair_row t = None))"
  by (induction ts arbitrary: l) (auto split: option.splits)

lemma scan_last_id_snoc:
  "scan_last_id l (ts @ [t]) =
     (case match_pair_row t of Some n \<Rightarrow> Some n | None \<Rightarrow> scan_last_id l ts)"
  by (induction ts arbitrary: l) (auto split: option.splits)

lemma scan_last_id_Some:
  "scan_last_id l ts = Some a \<Longrightarrow>
     (l = Some a \<and> (\<forall>t\<in>set ts. match_pair_row t = None)) \<or>
     (\<exists>pre t post. ts = pre @ t # post \<and> match_pair_row t = Some a \<and>
        (\<forall>u\<in>set post. match_pair_row u = None))"
proof (induction ts arbitrary: l)
  case Nil
  then show ?case by simp
next
  case (Cons x xs)
  from Cons.prems have
    "scan_last_id (case match_pair_row x of Some n \<Rightarrow> Some n | None \<Rightarrow> l) xs = Some a"
    by simp
  from Cons.IH [OF this] show ?case
  proof
    assume h: "(case match_pair_row x of Some n \<Rightarrow> Some n | None \<Rightarrow> l) = Some a \<and>
      (\<forall>t\<in>set xs. match_pair_row t = None)"
    show ?thesis
    proof (cases "match_pair_row x")
      case None
      with h show ?thesis by simp
    next
      case (Some n)
      with h have "x # xs = [] @ x # xs \<and> match_pair_row x = Some a \<and>
        (\<forall>u\<in>set xs. match_pair_row u = None)" by simp
      then show ?thesis by blast
    qed
  next
    assume "\<exists>pre t post. xs = pre @ t # post \<and> match_pair_row t = Some a \<and>
        (\<forall>u\<in>set post. match_pair_row u = None)"
    then obtain pre t post where "xs = pre @ t # post" "match_pair_row t = Some a"
      "\<forall>u\<in>set post. match_pair_row u = None" by blast
    then have "x # xs = (x # pre) @ t # post \<and> match_pair_row t = Some a \<and>
        (\<forall>u\<in>set post. match_pair_row u = None)" by simp
    then show ?thesis by blast
  qed
qed

lemma ShortenBuffer_short:
  "int (length buffer) < 3 * context \<Longrightarrow> ShortenBuffer buffer context = (buffer, None)"
  by (simp add: ShortenBuffer_def)

lemma ShortenBuffer_no_anchor:
  "3 * context \<le> int (length buffer) \<Longrightarrow>
   \<forall>t\<in>set (slice_to buffer context). match_pair_row t = None \<Longrightarrow>
   ShortenBuffer buffer context = (slice_to buffer context, Some TypeError)"
  by (simp add: ShortenBuffer_def Let_def scan_last_id_None split: option.splits)

lemma ShortenBuffer_anchored:
  "3 * context \<le> int (length buffer) \<Longrightarrow>
   scan_last_id None (slice_to buffer context) = Some a \<Longrightarrow>
   ShortenBuffer buffer context =
     (slice_to buffer context @
      [placeholder_row a (int (length buffer) - 2 * context)] @
      slice_from buffer (- context), None)"
  by (simp add: ShortenBuffer_def Let_def)

lemma anchor_exists:
  "\<exists>t\<in>set ts. match_pair_row t \<noteq> None \<Longrightarrow> \<exists>a. scan_last_id None ts = Some a"
  using scan_last_id_None [of None ts] by (cases "scan_last_id None ts") auto

lemma slice_to_nonneg: "0 \<le> k \<Longrightarrow> slice_to xs k = take (nat k) xs"
  by (simp add: slice_to_def)

lemma slice_from_neg: "0 < k \<Longrightarrow> slice_from xs (- k) = drop (length xs - nat k) xs"
  by (auto simp: slice_from_def nat_diff_distrib' )

lemma str_int_100: "str_int 100 = ''100''"
  by (simp add: str_int_def str_nat.simps digit_char_def)

lemma take_fifty_rows: "take 50 [1..<201] = [1..<50] @ [50::nat]"
proof -
  have "take 50 [1..<201::nat] = [1..<1 + 50]"
    by (rule take_upt) simp
  also have "\<dots> = [1..<50] @ [50]"
    using upt_Suc_append [of 1 50] by simp
  finally show ?thesis .
qed

lemma scan_first_fifty:
  "scan_last_id None
     (take 50 (map (\<lambda>i. ''<tr id=\"pair-'' @ str_nat i @ ''\">'') [1..<201])) = Some 50"
proof -
  have "take 50 (map (\<lambda>i. ''<tr id=\"pair-'' @ str_nat i @ ''\">'') [1..<201]) =
      map (\<lambda>i. ''<tr id=\"pair-'' @ str_nat i @ ''\">'') (take 50 [1..<201])"
    by (rule take_map)
  also have "\<dots> = map (\<lambda>i. ''<tr id=\"pair-'' @ str_nat i @ ''\">'') [1..<50] @
      [''<tr id=\"pair-'' @ str_nat 50 @ ''\">'']"
    by (simp only: take_fifty_rows map_append list.map)
  finally have split: "take 50 (map (\<lambda>i. ''<tr id=\"pair-'' @ str_nat i @ ''\">'') [1..<201]) =
      map (\<lambda>i. ''<tr id=\"pair-'' @ str_nat i @ ''\">'') [1..<50] @
      [''<tr id=\"pair-'' @ str_nat 50 @ ''\">'']" .
  have "match_pair_row (''<tr id=\"pair-'' @ str_nat 50 @ ''\">'') = Some 50"
    using match_pair_row_plain [of 50 "[]"] by simp
  then show ?thesis
    unfolding split by (simp only: scan_last_id_snoc option.case)
qed

lemma anchor_some_ex:
  "scan_last_id None ts = Some a \<Longrightarrow> \<exists>t\<in>set ts. match_pair_row t \<noteq> None"
  using scan_last_id_None [of None ts] by auto

lemma match_pair_row_7: "match_pair_row ''<tr id=\"pair-7\">x'' = Some 7"
  using match_pair_row_plain [of 7 "''x''"] by (simp add: str_nat.simps digit_char_def)

lemma match_pair_row_letter: "match_pair_row [c] = None"
  by (simp add: match_pair_row_def strip_prefix_def startswith_def)

text \<open>
  C2, as the code has it. A buffer shorter than three times the context is yielded
  unchanged, row for row. A buffer that is not shorter, and whose first \<open>context\<close> rows
  hold a row that starts with the row-id marker (every equal row of the row generator
  does, and it needs a context of at least 1), is yielded as its first \<open>context\<close> rows,
  one placeholder row and its last \<open>context\<close> rows. For a context of 50 and 200 rows:
  50 rows, the placeholder, 50 rows, and the placeholder shows a skip count of 100.
\<close>

theorem ShortenBuffer_contract:
  "(int (length buffer) < 3 * context \<longrightarrow> ShortenBuffer buffer context = (buffer, None))
   \<and> (3 * context \<le> int (length buffer) \<longrightarrow>
        (\<exists>t\<in>set (take (nat context) buffer). match_pair_row t \<noteq> None) \<longrightarrow>
        (\<exists>a. scan_last_id None (take (nat context) buffer) = Some a \<and>
           ShortenBuffer buffer context =
             (take (nat context) buffer @
              [placeholder_row a (int (length buffer) - 2 * context)] @
              drop (length buffer - nat context) buffer, None)))
   \<and> (length buffer = 200 \<longrightarrow>
        (\<exists>t\<in>set (take 50 buffer). match_pair_row t \<noteq> None) \<longrightarrow>
        (\<exists>a. scan_last_id None (take 50 buffer) = Some a \<and>
           ShortenBuffer buffer 50 =
             (take 50 buffer @ [placeholder_row a 100] @ drop 150 buffer, None) \<and>
           length (take 50 buffer) = 50 \<and> length (drop 150 buffer) = 50 \<and>
           placeholder_row a 100 =
             ''<tr id=\"skip-'' @ str_int (int a) @
             ''\"><td colspan=\"2\" align=\"center\" style=\"background:lightblue\">'' @
             ''(...skipping <span id=\"skipcount-'' @ str_int (int a) @ ''\">100</span> matching lines...) '' @
             ''<span id=\"skiplinks-'' @ str_int (int a) @ ''\">'' @ expand_link a 100 @
             ''</span></td></tr>\<newline>''))"
proof -
  have general: "\<exists>a. scan_last_id None (take (nat c) buffer) = Some a \<and>
      ShortenBuffer buffer c =
        (take (nat c) buffer @ [placeholder_row a (int (length buffer) - 2 * c)] @
         drop (length buffer - nat c) buffer, None)"
    if len: "3 * c \<le> int (length buffer)"
      and ex: "\<exists>t\<in>set (take (nat c) buffer). match_pair_row t \<noteq> None" for c
  proof -
    from ex have pos: "0 < c" by (cases "0 < c") auto
    then have hd: "slice_to buffer c = take (nat c) buffer"
      by (simp add: slice_to_nonneg)
    from ex obtain a where a: "scan_last_id None (take (nat c) buffer) = Some a"
      using anchor_exists by blast
    from ShortenBuffer_anchored [OF len, of a] a hd pos show ?thesis
      by (simp add: slice_from_neg)
  qed
  have fifty: "\<exists>a. scan_last_id None (take 50 buffer) = Some a \<and>
      ShortenBuffer buffer 50 =
        (take 50 buffer @ [placeholder_row a 100] @ drop 150 buffer, None) \<and>
      length (take 50 buffer) = 50 \<and> length (drop 150 buffer) = 50 \<and>
      placeholder_row a 100 =
        ''<tr id=\"skip-'' @ str_int (int a) @
        ''\"><td colspan=\"2\" align=\"center\" style=\"background:lightblue\">'' @
        ''(...skipping <span id=\"skipcount-'' @ str_int (int a) @ ''\">100</span> matching lines...) '' @
        ''<span id=\"skiplinks-'' @ str_int (int a) @ ''\">'' @ expand_link a 100 @
        ''</span></td></tr>\<newline>''"
    if len: "length buffer = 200"
      and ex: "\<exists>t\<in>set (take 50 buffer). match_pair_row t \<noteq> None"
  proof -
    from len ex general [of 50] obtain a where
      a: "scan_last_id None (take 50 buffer) = Some a"
      and sb: "ShortenBuffer buffer 50 =
        (take 50 buffer @ [placeholder_row a 100] @ drop 150 buffer, None)"
      by auto
    have "placeholder_row a 100 =
        ''<tr id=\"skip-'' @ str_int (int a) @
        ''\"><td colspan=\"2\" align=\"center\" style=\"background:lightblue\">'' @
        ''(...skipping <span id=\"skipcount-'' @ str_int (int a) @ ''\">100</span> matching lines...) '' @
        ''<span id=\"skiplinks-'' @ str_int (int a) @ ''\">'' @ expand_link a 100 @
        ''</span></td></tr>\<newline>''"
      by (simp add: placeholder_row_def str_int_100)
    with a sb len show ?thesis by simp
  qed
  from general fifty show ?thesis
    by (simp add: ShortenBuffer_short)
qed

theorem ShortenBuffer_contract_witness:
  "ShortenBuffer [''a'', ''b''] 1 = ([''a'', ''b''], None)
   \<and> ShortenBuffer [''<tr id=\"pair-7\">x'', ''b'', ''c''] 1 =
       ([''<tr id=\"pair-7\">x'', placeholder_row 7 1, ''c''], None)
   \<and> length (map (\<lambda>i. ''<tr id=\"pair-'' @ str_nat i @ ''\">'') [1..<201]) = 200
   \<and> ShortenBuffer (map (\<lambda>i. ''<tr id=\"pair-'' @ str_nat i @ ''\">'') [1..<201]) 50 =
       (take 50 (map (\<lambda>i. ''<tr id=\"pair-'' @ str_nat i @ ''\">'') [1..<201]) @
        [placeholder_row 50 100] @
        drop 150 (map (\<lambda>i. ''<tr id=\"pair-'' @ str_nat i @ ''\">'') [1..<201]), None)"
proof -
  let ?rows = "map (\<lambda>i. ''<tr id=\"pair-'' @ str_nat i @ ''\">'') [1..<201]"
  have len: "length ?rows = 200" by simp
  have "\<exists>t\<in>set (take 50 ?rows). match_pair_row t \<noteq> None"
    using scan_first_fifty by (rule anchor_some_ex)
  with ShortenBuffer_contract [of ?rows 50] len obtain a where
    "scan_last_id None (take 50 ?rows) = Some a"
    "ShortenBuffer ?rows 50 = (take 50 ?rows @ [placeholder_row a 100] @ drop 150 ?rows, None)"
    by blast
  with scan_first_fifty have big:
    "ShortenBuffer ?rows 50 = (take 50 ?rows @ [placeholder_row 50 100] @ drop 150 ?rows, None)"
    by simp
  have short: "ShortenBuffer [''a'', ''b''] 1 = ([''a'', ''b''], None)"
    using ShortenBuffer_contract [of "[''a'', ''b'']" 1] by simp
  have three: "ShortenBuffer [''<tr id=\"pair-7\">x'', ''b'', ''c''] 1 =
      ([''<tr id=\"pair-7\">x'', placeholder_row 7 1, ''c''], None)"
    using ShortenBuffer_contract [of "[''<tr id=\"pair-7\">x'', ''b'', ''c'']" 1]
    by (simp add: match_pair_row_7)
  show ?thesis
    by (intro conjI) (rule short three len big)+
qed

theorem ShortenBuffer_contract_counterexample:
  "ShortenBuffer [''<tr id=\"pair-1\">x''] 0 = ([], Some TypeError)
   \<and> ShortenBuffer [] 0 = ([], Some TypeError)"
  by (simp add: ShortenBuffer_def slice_to_def)

text \<open>
  C4. In a contracted run with anchor \<open>a\<close> and skip count \<open>skip\<close>, the placeholder row
  carries one action (\<open>Show\<close>) when the skip count is at most 10, and otherwise two
  (\<open>Show 10 above\<close>, \<open>Show 10 below\<close>); each action calls \<open>M_expandSkipped\<close> with
  \<open>a + 1\<close>, \<open>a + skip\<close>, its direction and \<open>a\<close>.
\<close>

theorem ShortenBuffer_expansion_actions:
  assumes "3 * context \<le> int (length buffer)"
    and "scan_last_id None (slice_to buffer context) = Some a"
  shows "fst (ShortenBuffer buffer context) =
           slice_to buffer context @
           [placeholder_row a (int (length buffer) - 2 * context)] @
           slice_from buffer (- context)
         \<and> placeholder_row a skip =
             ''<tr id=\"skip-'' @ str_int (int a) @
             ''\"><td colspan=\"2\" align=\"center\" style=\"background:lightblue\">'' @
             ''(...skipping <span id=\"skipcount-'' @ str_int (int a) @ ''\">'' @ str_int skip @
             ''</span> matching lines...) '' @
             ''<span id=\"skiplinks-'' @ str_int (int a) @ ''\">'' @
             (if skip \<le> 10 then
                expand_action (int a + 1) (int a + skip) ''b'' (int a) ''Show''
              else
                expand_action (int a + 1) (int a + skip) ''t'' (int a) ''Show 10 above'' @ '' '' @
                expand_action (int a + 1) (int a + skip) ''b'' (int a) ''Show 10 below'' @ '' '') @
             ''</span></td></tr>\<newline>''"
proof
  from ShortenBuffer_anchored [OF assms]
  show "fst (ShortenBuffer buffer context) =
      slice_to buffer context @ [placeholder_row a (int (length buffer) - 2 * context)] @
      slice_from buffer (- context)"
    by simp
next
  show "placeholder_row a skip =
      ''<tr id=\"skip-'' @ str_int (int a) @
      ''\"><td colspan=\"2\" align=\"center\" style=\"background:lightblue\">'' @
      ''(...skipping <span id=\"skipcount-'' @ str_int (int a) @ ''\">'' @ str_int skip @
      ''</span> matching lines...) '' @
      ''<span id=\"skiplinks-'' @ str_int (int a) @ ''\">'' @
      (if skip \<le> 10 then
         expand_action (int a + 1) (int a + skip) ''b'' (int a) ''Show''
       else
         expand_action (int a + 1) (int a + skip) ''t'' (int a) ''Show 10 above'' @ '' '' @
         expand_action (int a + 1) (int a + skip) ''b'' (int a) ''Show 10 below'' @ '' '') @
      ''</span></td></tr>\<newline>''"
    by (simp add: placeholder_row_def expand_link_def expand_action_def Let_def)
qed

lemma scan_single_7: "scan_last_id None (slice_to (''<tr id=\"pair-7\">x'' # rest) 1) = Some 7"
  by (simp add: slice_to_def match_pair_row_7)

theorem ShortenBuffer_expansion_actions_witness:
  "3 * 1 \<le> int (length [''<tr id=\"pair-7\">x'', ''b'', ''c''])
   \<and> scan_last_id None (slice_to [''<tr id=\"pair-7\">x'', ''b'', ''c''] 1) = Some 7
   \<and> fst (ShortenBuffer [''<tr id=\"pair-7\">x'', ''b'', ''c''] 1) =
       [''<tr id=\"pair-7\">x'', placeholder_row 7 1, ''c'']
   \<and> placeholder_row 7 1 =
       ''<tr id=\"skip-7\"><td colspan=\"2\" align=\"center\" style=\"background:lightblue\">'' @
       ''(...skipping <span id=\"skipcount-7\">1</span> matching lines...) '' @
       ''<span id=\"skiplinks-7\">'' @ expand_action 8 8 ''b'' 7 ''Show'' @
       ''</span></td></tr>\<newline>''
   \<and> 3 * 1 \<le> int (length (''<tr id=\"pair-7\">x'' # replicate 12 ''y''))
   \<and> fst (ShortenBuffer (''<tr id=\"pair-7\">x'' # replicate 12 ''y'') 1) =
       [''<tr id=\"pair-7\">x'', placeholder_row 7 11, ''y'']
   \<and> placeholder_row 7 11 =
       ''<tr id=\"skip-7\"><td colspan=\"2\" align=\"center\" style=\"background:lightblue\">'' @
       ''(...skipping <span id=\"skipcount-7\">11</span> matching lines...) '' @
       ''<span id=\"skiplinks-7\">'' @
       expand_action 8 18 ''t'' 7 ''Show 10 above'' @ '' '' @
       expand_action 8 18 ''b'' 7 ''Show 10 below'' @ '' '' @
       ''</span></td></tr>\<newline>''"
  using ShortenBuffer_expansion_actions [of 1 "[''<tr id=\"pair-7\">x'', ''b'', ''c'']" 7 1]
    ShortenBuffer_expansion_actions [of 1 "''<tr id=\"pair-7\">x'' # replicate 12 ''y''" 7 11]
    scan_single_7 [of "[''b'', ''c'']"] scan_single_7 [of "replicate 12 ''y''"]
  by (simp add: slice_to_def slice_from_def str_int_def str_nat.simps digit_char_def)

text \<open>
  C10. When \<open>ShortenBuffer\<close> contracts (the buffer has at least three times \<open>context\<close>
  rows), the anchor is read from the rows \<open>buffer[:context]\<close>. If one of them starts with
  the marker \<open><tr id="pair-N">\<close> (or the same with \<open>name="hook"\<close>), the anchor is the id
  of the last such row and the placeholder row, built from anchor + 1 and anchor + skip,
  is yielded between the first and the last rows. If none does, the anchor stays \<open>None\<close>:
  the first rows are yielded and the step raises \<open>TypeError\<close> with no placeholder row.
\<close>

theorem ShortenBuffer_anchor_precondition:
  assumes "3 * context \<le> int (length buffer)"
  shows "((\<exists>t\<in>set (slice_to buffer context). match_pair_row t \<noteq> None) \<longrightarrow>
            (\<exists>a pre t post.
               slice_to buffer context = pre @ t # post \<and> match_pair_row t = Some a \<and>
               (\<forall>u\<in>set post. match_pair_row u = None) \<and>
               ShortenBuffer buffer context =
                 (slice_to buffer context @
                  [placeholder_row a (int (length buffer) - 2 * context)] @
                  slice_from buffer (- context), None)))
         \<and> ((\<forall>t\<in>set (slice_to buffer context). match_pair_row t = None) \<longrightarrow>
              ShortenBuffer buffer context = (slice_to buffer context, Some TypeError))
         \<and> (0 \<le> context \<longrightarrow> slice_to buffer context = take (nat context) buffer)
         \<and> match_pair_row (''<tr id=\"pair-'' @ str_nat n @ ''\">'' @ rest) = Some n
         \<and> match_pair_row (''<tr name=\"hook\" id=\"pair-'' @ str_nat n @ ''\">'' @ rest) = Some n"
proof (intro conjI impI)
  assume "\<exists>t\<in>set (slice_to buffer context). match_pair_row t \<noteq> None"
  then obtain a where a: "scan_last_id None (slice_to buffer context) = Some a"
    using anchor_exists by blast
  from scan_last_id_Some [OF a] obtain pre t post where
    "slice_to buffer context = pre @ t # post" "match_pair_row t = Some a"
    "\<forall>u\<in>set post. match_pair_row u = None"
    by auto
  with ShortenBuffer_anchored [OF assms a]
  show "\<exists>a pre t post.
      slice_to buffer context = pre @ t # post \<and> match_pair_row t = Some a \<and>
      (\<forall>u\<in>set post. match_pair_row u = None) \<and>
      ShortenBuffer buffer context =
        (slice_to buffer context @ [placeholder_row a (int (length buffer) - 2 * context)] @
         slice_from buffer (- context), None)"
    by blast
next
  assume "\<forall>t\<in>set (slice_to buffer context). match_pair_row t = None"
  with assms show "ShortenBuffer buffer context = (slice_to buffer context, Some TypeError)"
    by (rule ShortenBuffer_no_anchor)
next
  assume "0 \<le> context"
  then show "slice_to buffer context = take (nat context) buffer"
    by (rule slice_to_nonneg)
next
  show "match_pair_row (''<tr id=\"pair-'' @ str_nat n @ ''\">'' @ rest) = Some n"
    using match_pair_row_plain [of n rest] by simp
next
  show "match_pair_row (''<tr name=\"hook\" id=\"pair-'' @ str_nat n @ ''\">'' @ rest) = Some n"
    using match_pair_row_hook [of n rest] by simp
qed

theorem ShortenBuffer_anchor_precondition_witness:
  "3 * 1 \<le> int (length [''<tr id=\"pair-7\">x'', ''b'', ''c''])
   \<and> match_pair_row ''<tr id=\"pair-7\">x'' = Some 7
   \<and> ShortenBuffer [''<tr id=\"pair-7\">x'', ''b'', ''c''] 1 =
       ([''<tr id=\"pair-7\">x'', placeholder_row 7 1, ''c''], None)
   \<and> 3 * 1 \<le> int (length [''a'', ''b'', ''c''])
   \<and> match_pair_row ''a'' = None
   \<and> ShortenBuffer [''a'', ''b'', ''c''] 1 = ([''a''], Some TypeError)"
  using ShortenBuffer_anchor_precondition [of 1 "[''<tr id=\"pair-7\">x'', ''b'', ''c'']"]
    ShortenBuffer_anchor_precondition [of 1 "[''a'', ''b'', ''c'']"]
  by (auto simp: slice_to_def slice_from_def match_pair_row_7 match_pair_row_letter
      Cons_eq_append_conv)

section \<open>Rows of the row generator\<close>

lemma gen_seq_empty_left [simp]: "gen_seq ([], None) g = g"
  by (simp add: gen_seq_def)

lemma gen_seq_empty_right [simp]: "gen_seq g ([], None) = g"
  by (cases g) (simp add: gen_seq_def split: option.splits)

lemma gen_seq_assoc: "gen_seq (gen_seq f g) h = gen_seq f (gen_seq g h)"
  by (simp add: gen_seq_def split: option.splits)

lemma gen_seq_raised: "snd g = Some e \<Longrightarrow> gen_seq g h = g"
  by (simp add: gen_seq_def)

lemma gen_seq_done: "gen_seq (xs, None) h = (xs @ fst h, snd h)"
  by (simp add: gen_seq_def)

lemma gen_concat_snoc: "gen_concat (gs @ [g]) = gen_seq (gen_concat gs) g"
  by (induction gs) (simp_all add: gen_concat_def gen_seq_assoc)

lemma numbered_append:
  "numbered rc (xs @ ys) \<longleftrightarrow> numbered rc xs \<and> numbered (rc + length xs) ys"
  by (induction xs arbitrary: rc) simp_all

lemma upt_from_Suc: "[Suc rc..<Suc rc + Suc n] = Suc rc # [Suc (Suc rc)..<Suc (Suc rc) + n]"
  by (simp add: upt_conv_Cons del: upt_Suc)

lemma numbered_pair_ids: "numbered rc rows \<Longrightarrow> pair_ids rows = [Suc rc..<Suc rc + length rows]"
proof (induction rows arbitrary: rc)
  case Nil
  then show ?case by (simp add: pair_ids_def map_filter_simps)
next
  case (Cons r rows)
  from Cons.prems have m: "match_pair_row (snd r) = Some (Suc rc)"
    and n: "numbered (Suc rc) rows"
    by simp_all
  from Cons.IH [OF n] have ids: "pair_ids rows = [Suc (Suc rc)..<Suc (Suc rc) + length rows]" .
  have "pair_ids (r # rows) = Suc rc # pair_ids rows"
    using m by (simp add: pair_ids_def map_filter_simps)
  then show ?case
    unfolding ids using upt_from_Suc [of rc "length rows"] by (simp del: upt_Suc)
qed

lemma numbered_match: "numbered rc rows \<Longrightarrow> r \<in> set rows \<Longrightarrow> match_pair_row (snd r) \<noteq> None"
  by (induction rows arbitrary: rc) auto

lemma pair_ids_append: "pair_ids (xs @ ys) = pair_ids xs @ pair_ids ys"
  by (simp add: pair_ids_def map_filter_def)

lemma row_frags_start:
  "match_pair_row (concat (row_frags tag i rc) @ rest) = Some rc"
  using match_pair_row_plain [of rc rest] match_pair_row_hook [of rc rest]
  by (simp add: row_frags_def)

lemma render_pair_row:
  assumes "render_pair c ob nb ndigits tag frags do_ir_diff old_dict new_dict old_patch new_patch
       old_snapshot new_snapshot colwidth debug = Inr r"
  shows "(fst r = tag \<or> fst r = tag @ ''_comment'') \<and> (\<exists>rest. snd r = concat frags @ rest)"
  using assms
  by (auto simp: render_pair_def Let_def split: prod.splits if_splits sum.splits)

lemma RenderDiffInternal_rows:
  assumes "\<forall>j<length frag_list. \<forall>rest.
      match_pair_row (concat (frag_list ! j) @ rest) = Some (Suc (rc + j))"
  shows "numbered rc (fst (RenderDiffInternal c old_buff new_buff ndigits tag frag_list
             do_ir_diff old_dict new_dict old_patch new_patch old_snapshot new_snapshot
             colwidth debug))
       \<and> tagged tag (fst (RenderDiffInternal c old_buff new_buff ndigits tag frag_list
             do_ir_diff old_dict new_dict old_patch new_patch old_snapshot new_snapshot
             colwidth debug))
       \<and> length (fst (RenderDiffInternal c old_buff new_buff ndigits tag frag_list
             do_ir_diff old_dict new_dict old_patch new_patch old_snapshot new_snapshot
             colwidth debug)) \<le> length old_buff
       \<and> (snd (RenderDiffInternal c old_buff new_buff ndigits tag frag_list
             do_ir_diff old_dict new_dict old_patch new_patch old_snapshot new_snapshot
             colwidth debug) = None \<longrightarrow>
           length (fst (RenderDiffInternal c old_buff new_buff ndigits tag frag_list
             do_ir_diff old_dict new_dict old_patch new_patch old_snapshot new_snapshot
             colwidth debug)) = length old_buff)"
  using assms
proof (induction c old_buff new_buff ndigits tag frag_list do_ir_diff old_dict new_dict
    old_patch new_patch old_snapshot new_snapshot colwidth debug arbitrary: rc
    rule: RenderDiffInternal.induct)
  case (2 c ob old_buff nb new_buff ndigits tag frags frag_list do_ir_diff old_dict new_dict
      old_patch new_patch old_snapshot new_snapshot colwidth debug)
  show ?case
  proof (cases "render_pair c ob nb ndigits tag frags do_ir_diff old_dict new_dict old_patch
      new_patch old_snapshot new_snapshot colwidth debug")
    case (Inl e)
    then show ?thesis by (simp add: tagged_def)
  next
    case (Inr r)
    from render_pair_row [OF Inr] obtain rest where
      tg: "fst r = tag \<or> fst r = tag @ ''_comment''" and tx: "snd r = concat frags @ rest"
      by blast
    from "2.prems" have "match_pair_row (concat ((frags # frag_list) ! 0) @ rest) = Some (Suc (rc + 0))"
      by blast
    with tx have m: "match_pair_row (snd r) = Some (Suc rc)" by simp
    have "\<forall>j<length frag_list. \<forall>rest.
        match_pair_row (concat (frag_list ! j) @ rest) = Some (Suc (Suc rc + j))"
    proof (intro allI impI)
      fix j rest
      assume "j < length frag_list"
      then have "Suc j < length (frags # frag_list)" by simp
      with "2.prems" have
        "match_pair_row (concat ((frags # frag_list) ! Suc j) @ rest) = Some (Suc (rc + Suc j))"
        by blast
      then show "match_pair_row (concat (frag_list ! j) @ rest) = Some (Suc (Suc rc + j))"
        by simp
    qed
    from "2.IH" [OF Inr this] Inr m tg show ?thesis
      by (simp add: gen_seq_done tagged_def)
  qed
qed (simp_all add: tagged_def)

lemma gen_concat_rows:
  assumes "\<forall>i<n. numbered (rc + i) (fst (f i)) \<and> tagged tag (fst (f i)) \<and>
      length (fst (f i)) \<le> 1 \<and> (snd (f i) = None \<longrightarrow> length (fst (f i)) = 1)"
  shows "numbered rc (fst (gen_concat (map f [0..<n])))
       \<and> tagged tag (fst (gen_concat (map f [0..<n])))
       \<and> length (fst (gen_concat (map f [0..<n]))) \<le> n
       \<and> (snd (gen_concat (map f [0..<n])) = None \<longrightarrow>
            length (fst (gen_concat (map f [0..<n]))) = n)"
  using assms
proof (induction n)
  case 0
  then show ?case by (simp add: gen_concat_def tagged_def)
next
  case (Suc n)
  let ?g = "gen_concat (map f [0..<n])"
  from Suc have IH: "numbered rc (fst ?g)" "tagged tag (fst ?g)" "length (fst ?g) \<le> n"
    "snd ?g = None \<longrightarrow> length (fst ?g) = n"
    by simp_all
  from Suc.prems have last: "numbered (rc + n) (fst (f n))" "tagged tag (fst (f n))"
    "length (fst (f n)) \<le> 1" "snd (f n) = None \<longrightarrow> length (fst (f n)) = 1"
    by simp_all
  have step: "gen_concat (map f [0..<Suc n]) = gen_seq ?g (f n)"
    by (simp add: gen_concat_snoc)
  show ?case
  proof (cases "snd ?g")
    case None
    with IH have len: "length (fst ?g) = n" by simp
    from None have "gen_seq ?g (f n) = (fst ?g @ fst (f n), snd (f n))"
      by (simp add: gen_seq_def)
    with IH last len show ?thesis
      unfolding step by (auto simp: numbered_append tagged_def)
  next
    case (Some e)
    then have "gen_seq ?g (f n) = ?g" by (rule gen_seq_raised)
    with IH Some show ?thesis
      unfolding step by simp
  qed
qed

lemma render_triple_rows:
  "numbered rc (fst (render_triple c old_patch old_dict old_snapshot new_patch new_dict
       new_snapshot colwidth debug diff_params ndigits indent (oo, no, rc) (tag, old, new)))
   \<and> tagged tag (fst (render_triple c old_patch old_dict old_snapshot new_patch new_dict
       new_snapshot colwidth debug diff_params ndigits indent (oo, no, rc) (tag, old, new)))
   \<and> length (fst (render_triple c old_patch old_dict old_snapshot new_patch new_dict
       new_snapshot colwidth debug diff_params ndigits indent (oo, no, rc) (tag, old, new)))
       \<le> max (length old) (length new)
   \<and> (snd (render_triple c old_patch old_dict old_snapshot new_patch new_dict
       new_snapshot colwidth debug diff_params ndigits indent (oo, no, rc) (tag, old, new)) = None
      \<longrightarrow> length (fst (render_triple c old_patch old_dict old_snapshot new_patch new_dict
       new_snapshot colwidth debug diff_params ndigits indent (oo, no, rc) (tag, old, new)))
       = max (length old) (length new))"
proof (cases "tag = ''replace'' \<and> CanDoIRDiff c old new")
  case False
  let ?f = "\<lambda>i. (case (side_entry oo old i, side_entry no new i) of
      ((old_valid, old_lineno, old_intra_diff), (new_valid, new_lineno, new_intra_diff)) \<Rightarrow>
        RenderDiffInternal c
          [(old_valid, old_lineno,
            (Fold c old_intra_diff (colwidth + indent) indent indent, True, None))]
          [(new_valid, new_lineno,
            (Fold c new_intra_diff (colwidth + indent) indent indent, True, None))]
          ndigits tag [row_frags tag i (rc + i + 1)] (tag = ''replace'' \<and> CanDoIRDiff c old new)
          old_dict new_dict old_patch new_patch old_snapshot new_snapshot colwidth debug)"
  have eq: "render_triple c old_patch old_dict old_snapshot new_patch new_dict
       new_snapshot colwidth debug diff_params ndigits indent (oo, no, rc) (tag, old, new) =
      gen_concat (map ?f [0..<max (length old) (length new)])"
    using False by (simp add: render_triple_def Let_def)
  have "numbered (rc + i) (fst (?f i)) \<and> tagged tag (fst (?f i)) \<and>
      length (fst (?f i)) \<le> 1 \<and> (snd (?f i) = None \<longrightarrow> length (fst (?f i)) = 1)" for i
  proof -
    obtain ov ol oi nv nl ni where e: "side_entry oo old i = (ov, ol, oi)"
      "side_entry no new i = (nv, nl, ni)"
      by (metis prod_cases3)
    have "\<forall>j<length [row_frags tag i (rc + i + 1)]. \<forall>rest.
        match_pair_row (concat ([row_frags tag i (rc + i + 1)] ! j) @ rest) = Some (Suc (rc + i + j))"
      using row_frags_start [of tag i "rc + i + 1"] by simp
    from RenderDiffInternal_rows [OF this,
        where old_buff = "[(ov, ol, (Fold c oi (colwidth + indent) indent indent, True, None))]"
          and new_buff = "[(nv, nl, (Fold c ni (colwidth + indent) indent indent, True, None))]"]
      e
    show ?thesis
      by (simp del: RenderDiffInternal.simps)
  qed
  then have "\<forall>i<max (length old) (length new).
      numbered (rc + i) (fst (?f i)) \<and> tagged tag (fst (?f i)) \<and>
      length (fst (?f i)) \<le> 1 \<and> (snd (?f i) = None \<longrightarrow> length (fst (?f i)) = 1)"
    by blast
  from gen_concat_rows [OF this] show ?thesis
    unfolding eq .
next
  case True
  let ?n = "max (length old) (length new)"
  let ?fl = "map (\<lambda>i. row_frags tag i (rc + i + 1)) [0..<?n]"
  let ?ob = "map (side_entry oo old) [0..<?n]"
  let ?nb = "map (side_entry no new) [0..<?n]"
  let ?ol = "map (\<lambda>b. snd (snd b)) ?ob"
  let ?nl = "map (\<lambda>b. snd (snd b)) ?nb"
  obtain oc nc ratio where ird: "IntraRegionDiff c ?ol ?nl diff_params = (oc, nc, ratio)"
    by (metis prod_cases3)
  let ?odo = "RenderIntraRegionDiff c ?ol oc ''old'' ratio colwidth indent debug"
  let ?ndo = "RenderIntraRegionDiff c ?nl nc ''new'' ratio colwidth indent debug"
  have fl: "\<forall>j<length ?fl. \<forall>rest.
      match_pair_row (concat (?fl ! j) @ rest) = Some (Suc (rc + j))"
    using row_frags_start by simp
  show ?thesis
  proof (cases "length ?odo < length ?ob \<or> length ?ndo < length ?nb")
    case short: True
    with True ird have "render_triple c old_patch old_dict old_snapshot new_patch new_dict
       new_snapshot colwidth debug diff_params ndigits indent (oo, no, rc) (tag, old, new) =
       ([], Some IndexError)"
      by (simp add: render_triple_def Let_def)
    then show ?thesis by (simp add: tagged_def)
  next
    case long: False
    with True ird have eq: "render_triple c old_patch old_dict old_snapshot new_patch new_dict
       new_snapshot colwidth debug diff_params ndigits indent (oo, no, rc) (tag, old, new) =
       RenderDiffInternal c (substitute_out ?ob ?odo) (substitute_out ?nb ?ndo) ndigits tag ?fl
         True old_dict new_dict old_patch new_patch old_snapshot new_snapshot colwidth debug"
      by (simp add: render_triple_def Let_def)
    from long have len: "length (substitute_out ?ob ?odo) = ?n"
      by (auto simp: substitute_out_def)
    from RenderDiffInternal_rows [OF fl, where old_buff = "substitute_out ?ob ?odo"] len
    show ?thesis
      unfolding eq by simp
  qed
qed

lemma not_error_tag:
  "\<not> startswith tag ''error'' \<Longrightarrow> tag \<noteq> ''error'' \<and> tag @ ''_comment'' \<noteq> ''error''"
proof
  assume a: "\<not> startswith tag ''error''"
  show "tag \<noteq> ''error''"
  proof
    assume "tag = ''error''"
    with a show False by (simp add: startswith_def)
  qed
  show "tag @ ''_comment'' \<noteq> ''error''"
  proof
    assume "tag @ ''_comment'' = ''error''"
    then have "length (tag @ ''_comment'') = length ''error''" by (rule arg_cong)
    then show False by simp
  qed
qed

lemma tagged_not_error:
  "tagged tag rows \<Longrightarrow> \<not> startswith tag ''error'' \<Longrightarrow> r \<in> set rows \<Longrightarrow> fst r \<noteq> ''error''"
  using not_error_tag [of tag] by (auto simp: tagged_def list_all_iff)

lemma render_triples_rows:
  assumes "\<forall>t\<in>set ts. \<not> startswith (fst t) ''error''"
  shows "numbered rc (fst (render_triples c old_patch old_dict old_snapshot new_patch new_dict
           new_snapshot colwidth debug diff_params ndigits indent (oo, no, rc) ts))
       \<and> (\<forall>r\<in>set (fst (render_triples c old_patch old_dict old_snapshot new_patch new_dict
           new_snapshot colwidth debug diff_params ndigits indent (oo, no, rc) ts)).
             fst r \<noteq> ''error'')
       \<and> length (fst (render_triples c old_patch old_dict old_snapshot new_patch new_dict
           new_snapshot colwidth debug diff_params ndigits indent (oo, no, rc) ts))
           \<le> line_pairs ts
       \<and> (snd (render_triples c old_patch old_dict old_snapshot new_patch new_dict
           new_snapshot colwidth debug diff_params ndigits indent (oo, no, rc) ts) = None \<longrightarrow>
          length (fst (render_triples c old_patch old_dict old_snapshot new_patch new_dict
           new_snapshot colwidth debug diff_params ndigits indent (oo, no, rc) ts))
           = line_pairs ts)"
  using assms
proof (induction ts arbitrary: oo no rc)
  case Nil
  then show ?case by simp
next
  case (Cons t ts)
  obtain tag old new where t: "t = (tag, old, new)" by (metis prod_cases3)
  with Cons.prems have ne: "\<not> startswith tag ''error''" by simp
  let ?g = "render_triple c old_patch old_dict old_snapshot new_patch new_dict
       new_snapshot colwidth debug diff_params ndigits indent (oo, no, rc) (tag, old, new)"
  let ?h = "render_triples c old_patch old_dict old_snapshot new_patch new_dict
       new_snapshot colwidth debug diff_params ndigits indent
       (oo + length old, no + length new, rc + max (length old) (length new)) ts"
  have eq: "render_triples c old_patch old_dict old_snapshot new_patch new_dict
       new_snapshot colwidth debug diff_params ndigits indent (oo, no, rc) (t # ts) =
       gen_seq ?g ?h"
    using t ne by simp
  note G = render_triple_rows [of rc c old_patch old_dict old_snapshot new_patch new_dict
      new_snapshot colwidth debug diff_params ndigits indent oo no tag old new]
  from Cons.prems have "\<forall>t\<in>set ts. \<not> startswith (fst t) ''error''" by simp
  note H = Cons.IH [OF this, of "rc + max (length old) (length new)" "oo + length old"
      "no + length new"]
  from G ne have gerr: "\<forall>r\<in>set (fst ?g). fst r \<noteq> ''error''"
    using tagged_not_error by blast
  show ?case
  proof (cases "snd ?g")
    case None
    with G have len: "length (fst ?g) = max (length old) (length new)" by simp
    from None have "gen_seq ?g ?h = (fst ?g @ fst ?h, snd ?h)"
      by (simp add: gen_seq_def)
    with G H gerr len t ne show ?thesis
      unfolding eq by (auto simp: numbered_append)
  next
    case (Some e)
    then have "gen_seq ?g ?h = ?g" by (rule gen_seq_raised)
    with G gerr Some t ne show ?thesis
      unfolding eq by auto
  qed
qed

lemma render_triples_error:
  assumes "\<forall>t\<in>set pre. \<not> startswith (fst t) ''error''" and "startswith tag ''error''"
  shows "render_triples c old_patch old_dict old_snapshot new_patch new_dict
           new_snapshot colwidth debug diff_params ndigits indent st
           (pre @ (tag, old, new) # post) =
         gen_seq
           (render_triples c old_patch old_dict old_snapshot new_patch new_dict
              new_snapshot colwidth debug diff_params ndigits indent st pre)
           ([(''error'', ''<tr><td><h3>'' @ cgi_escape tag @ ''</h3></td></tr>\<newline>'')], None)"
  using assms
proof (induction pre arbitrary: st)
  case Nil
  then show ?case by (cases st) simp
next
  case (Cons t pre)
  obtain tg ol nw where t: "t = (tg, ol, nw)" by (metis prod_cases3)
  obtain oo no rc where st: "st = (oo, no, rc)" by (metis prod_cases3)
  from Cons.prems t have ne: "\<not> startswith tg ''error''" by simp
  from Cons.prems have "\<forall>t\<in>set pre. \<not> startswith (fst t) ''error''" by simp
  from Cons.IH [OF this Cons.prems(2)] t st ne show ?case
    by (simp add: gen_seq_assoc)
qed

lemma line_pairs_error:
  "\<forall>t\<in>set pre. \<not> startswith (fst t) ''error'' \<Longrightarrow> startswith tag ''error'' \<Longrightarrow>
   line_pairs (pre @ (tag, old, new) # post) = line_pairs pre"
  by (induction pre) auto

lemma first_error:
  "(\<forall>t\<in>set ts. \<not> startswith (fst t) ''error'') \<or>
   (\<exists>pre tag old new post. ts = pre @ (tag, old, new) # post \<and>
      (\<forall>t\<in>set pre. \<not> startswith (fst t) ''error'') \<and> startswith tag ''error'')"
proof (induction ts)
  case Nil
  then show ?case by simp
next
  case (Cons t ts)
  obtain tg ol nw where t: "t = (tg, ol, nw)" by (metis prod_cases3)
  show ?case
  proof (cases "startswith tg ''error''")
    case True
    with t have "t # ts = [] @ (tg, ol, nw) # ts \<and>
      (\<forall>t\<in>set []. \<not> startswith (fst t) ''error'') \<and> startswith tg ''error''" by simp
    then show ?thesis by blast
  next
    case False
    from Cons.IH show ?thesis
    proof
      assume "\<forall>t\<in>set ts. \<not> startswith (fst t) ''error''"
      with False t show ?thesis by simp
    next
      assume "\<exists>pre tag old new post. ts = pre @ (tag, old, new) # post \<and>
        (\<forall>t\<in>set pre. \<not> startswith (fst t) ''error'') \<and> startswith tag ''error''"
      then obtain pre tag old new post where "ts = pre @ (tag, old, new) # post"
        "\<forall>t\<in>set pre. \<not> startswith (fst t) ''error''" "startswith tag ''error''"
        by blast
      with False t have "t # ts = (t # pre) @ (tag, old, new) # post \<and>
        (\<forall>t\<in>set (t # pre). \<not> startswith (fst t) ''error'') \<and> startswith tag ''error''"
        by simp
      then show ?thesis by blast
    qed
  qed
qed

lemma no_id_after_tr:
  "match_pair_row (CHR ''<'' # CHR ''t'' # CHR ''r'' # CHR ''>'' # x) = None"
  by (simp add: match_pair_row_def strip_prefix_def startswith_def)

lemma info_rows_no_id:
  "r \<in> set (fst (info_rows old_patch old_max new_patch new_max)) \<Longrightarrow>
   fst r = [] \<and> match_pair_row (snd r) = None"
  by (auto simp: info_rows_def Let_def no_id_after_tr split: if_splits option.splits)

lemma pair_ids_no_id: "\<forall>r\<in>set rows. match_pair_row (snd r) = None \<Longrightarrow> pair_ids rows = []"
  by (induction rows) (simp_all add: pair_ids_def map_filter_simps)

text \<open>The rows of the loop over any triples: numbered rows, then the error row if one is reached.\<close>

lemma render_triples_shape:
  "\<exists>body tl. fst (render_triples c old_patch old_dict old_snapshot new_patch new_dict
           new_snapshot colwidth debug diff_params ndigits indent (oo, no, rc) ts) = body @ tl
     \<and> numbered rc body \<and> (\<forall>r\<in>set body. fst r \<noteq> ''error'')
     \<and> (\<forall>r\<in>set tl. fst r = ''error'' \<and> match_pair_row (snd r) = None)
     \<and> length body \<le> line_pairs ts
     \<and> (snd (render_triples c old_patch old_dict old_snapshot new_patch new_dict
           new_snapshot colwidth debug diff_params ndigits indent (oo, no, rc) ts) = None \<longrightarrow>
          length body = line_pairs ts)"
proof -
  let ?R = "\<lambda>ts. render_triples c old_patch old_dict old_snapshot new_patch new_dict
           new_snapshot colwidth debug diff_params ndigits indent (oo, no, rc) ts"
  from first_error [of ts] show ?thesis
  proof
    assume "\<forall>t\<in>set ts. \<not> startswith (fst t) ''error''"
    from render_triples_rows [OF this, of rc c old_patch old_dict old_snapshot new_patch new_dict
        new_snapshot colwidth debug diff_params ndigits indent oo no]
    have "fst (?R ts) = fst (?R ts) @ [] \<and> numbered rc (fst (?R ts)) \<and>
        (\<forall>r\<in>set (fst (?R ts)). fst r \<noteq> ''error'') \<and>
        (\<forall>r\<in>set []. fst r = ''error'' \<and> match_pair_row (snd r) = None) \<and>
        length (fst (?R ts)) \<le> line_pairs ts \<and>
        (snd (?R ts) = None \<longrightarrow> length (fst (?R ts)) = line_pairs ts)"
      by simp
    then show ?thesis
      by (intro exI [where x = "fst (?R ts)"] exI [where x = "[]"])
  next
    assume "\<exists>pre tag old new post. ts = pre @ (tag, old, new) # post \<and>
      (\<forall>t\<in>set pre. \<not> startswith (fst t) ''error'') \<and> startswith tag ''error''"
    then obtain pre tag old new post where ts: "ts = pre @ (tag, old, new) # post"
      and pre: "\<forall>t\<in>set pre. \<not> startswith (fst t) ''error''" and tag: "startswith tag ''error''"
      by blast
    let ?err = "(''error'', ''<tr><td><h3>'' @ cgi_escape tag @ ''</h3></td></tr>\<newline>'')"
    have eq: "?R ts = gen_seq (?R pre) ([?err], None)"
      unfolding ts using pre tag by (rule render_triples_error)
    have lp: "line_pairs ts = line_pairs pre"
      unfolding ts using pre tag by (rule line_pairs_error)
    note P = render_triples_rows [OF pre, of rc c old_patch old_dict old_snapshot new_patch
        new_dict new_snapshot colwidth debug diff_params ndigits indent oo no]
    show ?thesis
    proof (cases "snd (?R pre)")
      case None
      then have whole: "?R ts = (fst (?R pre) @ [?err], None)"
        unfolding eq by (simp add: gen_seq_def)
      have noid: "match_pair_row (snd ?err) = None"
        by (simp add: no_id_after_tr)
      with P None lp whole have "fst (?R ts) = fst (?R pre) @ [?err] \<and> numbered rc (fst (?R pre)) \<and>
        (\<forall>r\<in>set (fst (?R pre)). fst r \<noteq> ''error'') \<and>
        (\<forall>r\<in>set [?err]. fst r = ''error'' \<and> match_pair_row (snd r) = None) \<and>
        length (fst (?R pre)) \<le> line_pairs ts \<and>
        (snd (?R ts) = None \<longrightarrow> length (fst (?R pre)) = line_pairs ts)"
        by simp
      then show ?thesis
        by (intro exI [where x = "fst (?R pre)"] exI [where x = "[?err]"])
    next
      case (Some e)
      then have "?R ts = ?R pre"
        unfolding eq by (rule gen_seq_raised)
      with P Some lp have "fst (?R ts) = fst (?R pre) @ [] \<and> numbered rc (fst (?R pre)) \<and>
        (\<forall>r\<in>set (fst (?R pre)). fst r \<noteq> ''error'') \<and>
        (\<forall>r\<in>set []. fst r = ''error'' \<and> match_pair_row (snd r) = None) \<and>
        length (fst (?R pre)) \<le> line_pairs ts \<and>
        (snd (?R ts) = None \<longrightarrow> length (fst (?R pre)) = line_pairs ts)"
        by simp
      then show ?thesis
        by (intro exI [where x = "fst (?R pre)"] exI [where x = "[]"])
    qed
  qed
qed

section \<open>The cleanup loop and the pipeline\<close>

lemma snd_gen_seq: "snd (gen_seq g h) = (case snd g of Some e \<Rightarrow> Some e | None \<Rightarrow> snd h)"
  by (simp add: gen_seq_def split: option.splits)

lemma fst_gen_seq_done: "snd g = None \<Longrightarrow> fst (gen_seq g h) = fst g @ fst h"
  by (simp add: gen_seq_def)

lemma snd_yield_rows [simp]: "snd (yield_rows g) = snd g"
  by (simp add: yield_rows_def)

lemma ShortenBuffer_empty: "0 < context \<Longrightarrow> ShortenBuffer [] context = ([], None)"
  by (simp add: ShortenBuffer_def)

lemma ShortenBuffer_ok:
  assumes "0 < context" and "\<forall>t\<in>set buffer. match_pair_row t \<noteq> None"
  shows "snd (ShortenBuffer buffer context) = None"
proof (cases "int (length buffer) < 3 * context")
  case True
  then show ?thesis by (simp add: ShortenBuffer_short)
next
  case False
  then have len: "3 * context \<le> int (length buffer)" by simp
  with assms(1) have "buffer \<noteq> []" by auto
  then obtain t ts where b: "buffer = t # ts" by (cases buffer) auto
  from assms(1) obtain m where m: "nat context = Suc m" by (cases "nat context") auto
  from assms(1) have "slice_to buffer context = take (nat context) buffer"
    by (simp add: slice_to_nonneg)
  with b m have "t \<in> set (slice_to buffer context)" by simp
  moreover from b assms(2) have "match_pair_row t \<noteq> None" by simp
  ultimately have "\<exists>t\<in>set (slice_to buffer context). match_pair_row t \<noteq> None" by blast
  then obtain a where "scan_last_id None (slice_to buffer context) = Some a"
    using anchor_exists by blast
  from ShortenBuffer_anchored [OF len this] show ?thesis by simp
qed

lemma cleanup_loop_error_row:
  assumes "0 < context" and "\<forall>r\<in>set rows. fst r \<noteq> ''error''"
  shows "cleanup_loop context buffer (rows @ [(''error'', x)]) ended =
         gen_seq (cleanup_loop context buffer rows None) ([Some x, None], None)"
  using assms(2)
proof (induction rows arbitrary: buffer)
  case Nil
  show ?case
  proof (cases "buffer = []")
    case True
    with assms(1) show ?thesis
      by (simp add: ShortenBuffer_empty yield_rows_def gen_seq_def)
  next
    case False
    then show ?thesis
      by (simp add: gen_seq_def split: option.splits)
  qed
next
  case (Cons r rows)
  obtain tag tx where r: "r = (tag, tx)" by (cases r)
  from Cons.prems r have ne: "tag \<noteq> ''error''" by simp
  from Cons.prems have rest: "\<forall>r\<in>set rows. fst r \<noteq> ''error''" by simp
  show ?case
  proof (cases "tag = ''equal''")
    case True
    with r Cons.IH [OF rest, of "buffer @ [tx]"] show ?thesis by simp
  next
    case False
    with r ne Cons.IH [OF rest, of "[]"] show ?thesis
      by (simp add: gen_seq_assoc)
  qed
qed

lemma cleanup_loop_raised:
  "\<forall>r\<in>set rows. fst r \<noteq> ''error'' \<Longrightarrow> snd (cleanup_loop context buffer rows (Some e)) \<noteq> None"
proof (induction rows arbitrary: buffer)
  case Nil
  then show ?case by simp
next
  case (Cons r rows)
  obtain tag tx where r: "r = (tag, tx)" by (cases r)
  with Cons show ?case
    by (auto simp: snd_gen_seq split: option.splits)
qed

lemma cleanup_loop_ok:
  assumes "0 < context"
  shows "\<forall>t\<in>set buffer. match_pair_row t \<noteq> None \<Longrightarrow>
         \<forall>r\<in>set rows. fst r = ''equal'' \<longrightarrow> match_pair_row (snd r) \<noteq> None \<Longrightarrow>
         snd (cleanup_loop context buffer rows None) = None"
proof (induction rows arbitrary: buffer)
  case Nil
  with assms show ?case by (simp add: ShortenBuffer_ok)
next
  case (Cons r rows)
  obtain tag tx where r: "r = (tag, tx)" by (cases r)
  from Cons.prems have rest: "\<forall>r\<in>set rows. fst r = ''equal'' \<longrightarrow> match_pair_row (snd r) \<noteq> None"
    by simp
  show ?case
  proof (cases "tag = ''equal''")
    case True
    with Cons.prems r have "\<forall>t\<in>set (buffer @ [tx]). match_pair_row t \<noteq> None" by auto
    from Cons.IH [OF this rest] True r show ?thesis by simp
  next
    case False
    have "\<forall>t\<in>set []. match_pair_row t \<noteq> None" by simp
    from Cons.IH [OF this rest] ShortenBuffer_ok [OF assms Cons.prems(1)] False r
    show ?thesis
      by (simp add: snd_gen_seq)
  qed
qed

text \<open>The rows of the row generator: the info rows, then the rows of the loop.\<close>

lemma TableRowGenerator_shape:
  "\<exists>info body tl.
     fst (TableRowGenerator c old_patch old_dict old_max old_snapshot new_patch new_dict
            new_max new_snapshot ts colwidth debug) = info @ body @ tl
     \<and> (\<forall>r\<in>set info. fst r = [] \<and> match_pair_row (snd r) = None)
     \<and> numbered 0 body \<and> (\<forall>r\<in>set body. fst r \<noteq> ''error'')
     \<and> (\<forall>r\<in>set tl. fst r = ''error'' \<and> match_pair_row (snd r) = None)
     \<and> length body \<le> line_pairs ts
     \<and> (snd (TableRowGenerator c old_patch old_dict old_max old_snapshot new_patch new_dict
            new_max new_snapshot ts colwidth debug) = None \<longrightarrow> length body = line_pairs ts)"
proof -
  let ?I = "info_rows old_patch old_max new_patch new_max"
  let ?nd = "1 + max (int (length (str_int old_max))) (int (length (str_int new_max)))"
  let ?R = "render_triples c old_patch old_dict old_snapshot new_patch new_dict new_snapshot
      colwidth debug (GetDiffParams c debug) ?nd (1 + ?nd) (0, 0, 0) ts"
  let ?T = "TableRowGenerator c old_patch old_dict old_max old_snapshot new_patch new_dict
            new_max new_snapshot ts colwidth debug"
  have T: "?T = gen_seq ?I ?R"
    by (simp add: TableRowGenerator_def Let_def)
  have I: "\<forall>r\<in>set (fst ?I). fst r = [] \<and> match_pair_row (snd r) = None"
    using info_rows_no_id by blast
  show ?thesis
  proof (cases "snd ?I")
    case None
    from render_triples_shape [of c old_patch old_dict old_snapshot new_patch new_dict
        new_snapshot colwidth debug "GetDiffParams c debug" ?nd "1 + ?nd" 0 0 0 ts]
    obtain body tl where R: "fst ?R = body @ tl" "numbered 0 body"
      "\<forall>r\<in>set body. fst r \<noteq> ''error''"
      "\<forall>r\<in>set tl. fst r = ''error'' \<and> match_pair_row (snd r) = None"
      "length body \<le> line_pairs ts" "snd ?R = None \<longrightarrow> length body = line_pairs ts"
      by (elim exE conjE) (rule that)
    from None have "fst ?T = fst ?I @ fst ?R" "snd ?T = snd ?R"
      unfolding T by (simp_all add: gen_seq_def)
    with R I have "fst ?T = fst ?I @ body @ tl \<and>
        (\<forall>r\<in>set (fst ?I). fst r = [] \<and> match_pair_row (snd r) = None) \<and>
        numbered 0 body \<and> (\<forall>r\<in>set body. fst r \<noteq> ''error'') \<and>
        (\<forall>r\<in>set tl. fst r = ''error'' \<and> match_pair_row (snd r) = None) \<and>
        length body \<le> line_pairs ts \<and> (snd ?T = None \<longrightarrow> length body = line_pairs ts)"
      by simp
    then show ?thesis
      by (intro exI [where x = "fst ?I"] exI [where x = body] exI [where x = tl])
  next
    case (Some e)
    then have "?T = ?I" unfolding T by (rule gen_seq_raised)
    with Some I have "fst ?T = fst ?I @ [] @ [] \<and>
        (\<forall>r\<in>set (fst ?I). fst r = [] \<and> match_pair_row (snd r) = None) \<and>
        numbered 0 [] \<and> (\<forall>r\<in>set []. fst r \<noteq> ''error'') \<and>
        (\<forall>r\<in>set []. fst r = ''error'' \<and> match_pair_row (snd r) = None) \<and>
        length [] \<le> line_pairs ts \<and> (snd ?T = None \<longrightarrow> length [] = line_pairs ts)"
      by simp
    then show ?thesis
      by (intro exI [where x = "fst ?I"] exI [where x = "[]"])
  qed
qed

lemma TableRowGenerator_ids:
  "\<exists>k. pair_ids (fst (TableRowGenerator c old_patch old_dict old_max old_snapshot new_patch
            new_dict new_max new_snapshot ts colwidth debug)) = [1..<Suc k]
     \<and> k \<le> line_pairs ts
     \<and> (snd (TableRowGenerator c old_patch old_dict old_max old_snapshot new_patch new_dict
            new_max new_snapshot ts colwidth debug) = None \<longrightarrow> k = line_pairs ts)
     \<and> (\<forall>r\<in>set (fst (TableRowGenerator c old_patch old_dict old_max old_snapshot new_patch
            new_dict new_max new_snapshot ts colwidth debug)).
           match_pair_row (snd r) = None \<longrightarrow> fst r = [] \<or> fst r = ''error'')"
proof -
  let ?T = "TableRowGenerator c old_patch old_dict old_max old_snapshot new_patch new_dict
            new_max new_snapshot ts colwidth debug"
  from TableRowGenerator_shape [of c old_patch old_dict old_max old_snapshot new_patch new_dict
      new_max new_snapshot ts colwidth debug]
  obtain info body tl where S: "fst ?T = info @ body @ tl"
    "\<forall>r\<in>set info. fst r = [] \<and> match_pair_row (snd r) = None"
    "numbered 0 body" "\<forall>r\<in>set body. fst r \<noteq> ''error''"
    "\<forall>r\<in>set tl. fst r = ''error'' \<and> match_pair_row (snd r) = None"
    "length body \<le> line_pairs ts" "snd ?T = None \<longrightarrow> length body = line_pairs ts"
    by (elim exE conjE) (rule that)
  from S(2) have "pair_ids info = []" by (simp add: pair_ids_no_id)
  moreover from S(5) have "pair_ids tl = []" by (simp add: pair_ids_no_id)
  moreover from numbered_pair_ids [OF S(3)] have "pair_ids body = [1..<Suc (length body)]"
    by simp
  ultimately have ids: "pair_ids (fst ?T) = [1..<Suc (length body)]"
    unfolding S(1) by (simp add: pair_ids_append)
  have "\<forall>r\<in>set (fst ?T). match_pair_row (snd r) = None \<longrightarrow> fst r = [] \<or> fst r = ''error''"
  proof
    fix r
    assume "r \<in> set (fst ?T)"
    then have "r \<in> set info \<or> r \<in> set body \<or> r \<in> set tl"
      unfolding S(1) by auto
    then show "match_pair_row (snd r) = None \<longrightarrow> fst r = [] \<or> fst r = ''error''"
      using S(2,5) numbered_match [OF S(3), of r] by blast
  qed
  with ids S(6,7) have "pair_ids (fst ?T) = [1..<Suc (length body)] \<and>
      length body \<le> line_pairs ts \<and> (snd ?T = None \<longrightarrow> length body = line_pairs ts) \<and>
      (\<forall>r\<in>set (fst ?T). match_pair_row (snd r) = None \<longrightarrow> fst r = [] \<or> fst r = ''error'')"
    by simp
  then show ?thesis
    by (intro exI [where x = "length body"])
qed

lemma TableRowGenerator_error:
  assumes "\<forall>t\<in>set pre. \<not> startswith (fst t) ''error''" and "startswith tag ''error''"
  shows "TableRowGenerator c old_patch old_dict old_max old_snapshot new_patch new_dict
           new_max new_snapshot (pre @ (tag, old, new) # post) colwidth debug =
         gen_seq
           (TableRowGenerator c old_patch old_dict old_max old_snapshot new_patch new_dict
              new_max new_snapshot pre colwidth debug)
           ([(''error'', ''<tr><td><h3>'' @ cgi_escape tag @ ''</h3></td></tr>\<newline>'')], None)"
proof -
  let ?nd = "1 + max (int (length (str_int old_max))) (int (length (str_int new_max)))"
  have "render_triples c old_patch old_dict old_snapshot new_patch new_dict new_snapshot
      colwidth debug (GetDiffParams c debug) ?nd (1 + ?nd) (0, 0, 0)
      (pre @ (tag, old, new) # post) =
    gen_seq
      (render_triples c old_patch old_dict old_snapshot new_patch new_dict new_snapshot
         colwidth debug (GetDiffParams c debug) ?nd (1 + ?nd) (0, 0, 0) pre)
      ([(''error'', ''<tr><td><h3>'' @ cgi_escape tag @ ''</h3></td></tr>\<newline>'')], None)"
    using assms by (rule render_triples_error)
  then show ?thesis
    by (simp add: TableRowGenerator_def Let_def gen_seq_assoc)
qed

lemma TableRowGenerator_tags:
  assumes "\<forall>t\<in>set pre. \<not> startswith (fst t) ''error''"
  shows "\<forall>r\<in>set (fst (TableRowGenerator c old_patch old_dict old_max old_snapshot new_patch
            new_dict new_max new_snapshot pre colwidth debug)).
           fst r \<noteq> ''error'' \<and> (fst r = ''equal'' \<longrightarrow> match_pair_row (snd r) \<noteq> None)"
proof -
  let ?I = "info_rows old_patch old_max new_patch new_max"
  let ?nd = "1 + max (int (length (str_int old_max))) (int (length (str_int new_max)))"
  let ?R = "render_triples c old_patch old_dict old_snapshot new_patch new_dict new_snapshot
      colwidth debug (GetDiffParams c debug) ?nd (1 + ?nd) (0, 0, 0) pre"
  let ?T = "TableRowGenerator c old_patch old_dict old_max old_snapshot new_patch new_dict
            new_max new_snapshot pre colwidth debug"
  have T: "?T = gen_seq ?I ?R"
    by (simp add: TableRowGenerator_def Let_def)
  have sub: "set (fst ?T) \<subseteq> set (fst ?I) \<union> set (fst ?R)"
    unfolding T by (auto simp: gen_seq_def split: option.splits)
  note R = render_triples_rows [OF assms, of 0 c old_patch old_dict old_snapshot new_patch
      new_dict new_snapshot colwidth debug "GetDiffParams c debug" ?nd "1 + ?nd" 0 0]
  show ?thesis
  proof
    fix r
    assume "r \<in> set (fst ?T)"
    with sub have "r \<in> set (fst ?I) \<or> r \<in> set (fst ?R)" by blast
    then show "fst r \<noteq> ''error'' \<and> (fst r = ''equal'' \<longrightarrow> match_pair_row (snd r) \<noteq> None)"
    proof
      assume "r \<in> set (fst ?I)"
      from info_rows_no_id [OF this] show ?thesis by simp
    next
      assume r: "r \<in> set (fst ?R)"
      with R have "fst r \<noteq> ''error''" by blast
      moreover from R r have "match_pair_row (snd r) \<noteq> None"
        using numbered_match by blast
      ultimately show ?thesis by simp
    qed
  qed
qed

lemma pipeline_error:
  assumes "0 < context" and "\<forall>t\<in>set pre. \<not> startswith (fst t) ''error''"
    and "startswith tag ''error''"
  shows "CleanupTableRowsGenerator
           (TableRowGenerator c old_patch old_dict old_max old_snapshot new_patch new_dict
              new_max new_snapshot (pre @ (tag, old, new) # post) colwidth debug) context =
         gen_seq
           (CleanupTableRowsGenerator
              (TableRowGenerator c old_patch old_dict old_max old_snapshot new_patch new_dict
                 new_max new_snapshot pre colwidth debug) context)
           ([Some (''<tr><td><h3>'' @ cgi_escape tag @ ''</h3></td></tr>\<newline>''), None], None)"
    and "snd (TableRowGenerator c old_patch old_dict old_max old_snapshot new_patch new_dict
                 new_max new_snapshot pre colwidth debug) = None \<longrightarrow>
         snd (CleanupTableRowsGenerator
              (TableRowGenerator c old_patch old_dict old_max old_snapshot new_patch new_dict
                 new_max new_snapshot pre colwidth debug) context) = None"
proof -
  let ?P = "TableRowGenerator c old_patch old_dict old_max old_snapshot new_patch new_dict
                 new_max new_snapshot pre colwidth debug"
  let ?x = "''<tr><td><h3>'' @ cgi_escape tag @ ''</h3></td></tr>\<newline>''"
  note tags = TableRowGenerator_tags [OF assms(2), of c old_patch old_dict old_max old_snapshot
      new_patch new_dict new_max new_snapshot colwidth debug]
  then have noerr: "\<forall>r\<in>set (fst ?P). fst r \<noteq> ''error''"
    and eqs: "\<forall>r\<in>set (fst ?P). fst r = ''equal'' \<longrightarrow> match_pair_row (snd r) \<noteq> None"
    by blast+
  have whole: "TableRowGenerator c old_patch old_dict old_max old_snapshot new_patch new_dict
      new_max new_snapshot (pre @ (tag, old, new) # post) colwidth debug =
      gen_seq ?P ([(''error'', ?x)], None)"
    using assms(2,3) by (rule TableRowGenerator_error)
  show "CleanupTableRowsGenerator
           (TableRowGenerator c old_patch old_dict old_max old_snapshot new_patch new_dict
              new_max new_snapshot (pre @ (tag, old, new) # post) colwidth debug) context =
         gen_seq (CleanupTableRowsGenerator ?P context) ([Some ?x, None], None)"
  proof (cases "snd ?P")
    case None
    then have "gen_seq ?P ([(''error'', ?x)], None) = (fst ?P @ [(''error'', ?x)], None)"
      by (simp add: gen_seq_def)
    with None cleanup_loop_error_row [OF assms(1) noerr, of "[]" ?x None] show ?thesis
      unfolding whole by (simp add: CleanupTableRowsGenerator_def)
  next
    case (Some e)
    then have same: "gen_seq ?P ([(''error'', ?x)], None) = ?P" by (rule gen_seq_raised)
    from Some cleanup_loop_raised [OF noerr, of "context" "[]" e]
    obtain e' where "snd (CleanupTableRowsGenerator ?P context) = Some e'"
      by (auto simp: CleanupTableRowsGenerator_def)
    then have "gen_seq (CleanupTableRowsGenerator ?P context) ([Some ?x, None], None) =
        CleanupTableRowsGenerator ?P context"
      by (rule gen_seq_raised)
    with same show ?thesis unfolding whole by simp
  qed
  show "snd ?P = None \<longrightarrow> snd (CleanupTableRowsGenerator ?P context) = None"
  proof
    assume "snd ?P = None"
    moreover have "\<forall>t\<in>set []. match_pair_row t \<noteq> None" by simp
    ultimately show "snd (CleanupTableRowsGenerator ?P context) = None"
      using cleanup_loop_ok [OF assms(1) _ eqs, of "[]"]
      by (simp add: CleanupTableRowsGenerator_def)
  qed
qed

section \<open>Row ids of a render\<close>

text \<open>
  C5. In the rows of one run of the row generator, before any cleanup, the row ids at
  the start of the rows (\<open>pair-N\<close>), read in the order the rows are yielded, are
  1, 2, ..., k with no gap and no repetition; k is the number of line pairs of the
  triples up to the first error triple when the run ends without an exception (and
  no more than that otherwise); the only rows without an id are the row with a message
  (tag \<open>''\<close>) and the error row.
\<close>

theorem TableRowGenerator_row_ids:
  "\<exists>k. pair_ids (fst (TableRowGenerator c old_patch old_dict old_max old_snapshot new_patch
            new_dict new_max new_snapshot ts colwidth debug)) = [1..<Suc k]
     \<and> k \<le> line_pairs ts
     \<and> (snd (TableRowGenerator c old_patch old_dict old_max old_snapshot new_patch new_dict
            new_max new_snapshot ts colwidth debug) = None \<longrightarrow> k = line_pairs ts)
     \<and> (\<forall>r\<in>set (fst (TableRowGenerator c old_patch old_dict old_max old_snapshot new_patch
            new_dict new_max new_snapshot ts colwidth debug)).
           match_pair_row (snd r) = None \<longrightarrow> fst r = [] \<or> fst r = ''error'')"
  by (rule TableRowGenerator_ids)

lemma sample_render_done:
  "snd (TableRowGenerator sample_collab None Map.empty 2 ''old'' None Map.empty 3 ''new''
     [(''equal'', [''a''], [''a'']), (''replace'', [''b''], [''c'', ''d''])] 80 False) = None"
  by code_simp

lemma upt_1_4: "[1..<Suc 3] = [1, 2, 3::nat]"
  by code_simp

theorem TableRowGenerator_row_ids_witness:
  "pair_ids (fst (TableRowGenerator sample_collab None Map.empty 2 ''old'' None Map.empty 3 ''new''
     [(''equal'', [''a''], [''a'']), (''replace'', [''b''], [''c'', ''d''])] 80 False)) = [1, 2, 3]
   \<and> line_pairs [(''equal'', [''a''], [''a'']), (''replace'', [''b''], [''c'', ''d''])] = 3"
proof -
  have lp: "line_pairs [(''equal'', [''a''], [''a'']), (''replace'', [''b''], [''c'', ''d''])] = 3"
    by (simp add: startswith_def)
  from TableRowGenerator_row_ids [of sample_collab None Map.empty 2 "''old''" None Map.empty 3
      "''new''" "[(''equal'', [''a''], [''a'']), (''replace'', [''b''], [''c'', ''d''])]" 80 False]
  obtain k where
    "pair_ids (fst (TableRowGenerator sample_collab None Map.empty 2 ''old'' None Map.empty 3 ''new''
       [(''equal'', [''a''], [''a'']), (''replace'', [''b''], [''c'', ''d''])] 80 False)) = [1..<Suc k]"
    "snd (TableRowGenerator sample_collab None Map.empty 2 ''old'' None Map.empty 3 ''new''
       [(''equal'', [''a''], [''a'']), (''replace'', [''b''], [''c'', ''d''])] 80 False) = None
     \<longrightarrow> k = line_pairs [(''equal'', [''a''], [''a'']), (''replace'', [''b''], [''c'', ''d''])]"
    by (elim exE conjE) (rule that)
  with sample_render_done lp have
    "pair_ids (fst (TableRowGenerator sample_collab None Map.empty 2 ''old'' None Map.empty 3 ''new''
       [(''equal'', [''a''], [''a'']), (''replace'', [''b''], [''c'', ''d''])] 80 False)) = [1..<Suc 3]"
    by simp
  with lp show ?thesis
    by (simp only: upt_1_4 simp_thms)
qed

section \<open>An error triple ends the pipeline\<close>

text \<open>
  C1, as the code has it. With a positive context: when the triples hold a triple whose tag starts with
  \<open>error\<close>, the pipeline (row generator, then cleanup) yields what it yields for the
  triples before the first such triple, then one row with the escaped error message, then
  the sentinel \<open>None\<close>, and nothing after it, whatever follows the error triple. When
  the row generator raises no exception on the triples before the error, neither does the
  cleanup, so the error row and the sentinel are reached. With a context of 0 the flush of
  the buffer before the error row raises \<open>TypeError\<close>, also on an empty buffer, and neither
  the error row nor the sentinel is yielded.
\<close>

theorem pipeline_stops_at_error:
  assumes "0 < context" and "\<forall>t\<in>set pre. \<not> startswith (fst t) ''error''"
    and "startswith tag ''error''"
  shows "CleanupTableRowsGenerator
           (TableRowGenerator c old_patch old_dict old_max old_snapshot new_patch new_dict
              new_max new_snapshot (pre @ (tag, old, new) # post) colwidth debug) context =
         gen_seq
           (CleanupTableRowsGenerator
              (TableRowGenerator c old_patch old_dict old_max old_snapshot new_patch new_dict
                 new_max new_snapshot pre colwidth debug) context)
           ([Some (''<tr><td><h3>'' @ cgi_escape tag @ ''</h3></td></tr>\<newline>''), None], None)
       \<and> (snd (TableRowGenerator c old_patch old_dict old_max old_snapshot new_patch new_dict
                 new_max new_snapshot pre colwidth debug) = None \<longrightarrow>
            CleanupTableRowsGenerator
              (TableRowGenerator c old_patch old_dict old_max old_snapshot new_patch new_dict
                 new_max new_snapshot (pre @ (tag, old, new) # post) colwidth debug) context =
            (fst (CleanupTableRowsGenerator
                   (TableRowGenerator c old_patch old_dict old_max old_snapshot new_patch
                      new_dict new_max new_snapshot pre colwidth debug) context) @
             [Some (''<tr><td><h3>'' @ cgi_escape tag @ ''</h3></td></tr>\<newline>''), None],
             None))"
proof -
  let ?P = "CleanupTableRowsGenerator
              (TableRowGenerator c old_patch old_dict old_max old_snapshot new_patch new_dict
                 new_max new_snapshot pre colwidth debug) context"
  let ?W = "CleanupTableRowsGenerator
           (TableRowGenerator c old_patch old_dict old_max old_snapshot new_patch new_dict
              new_max new_snapshot (pre @ (tag, old, new) # post) colwidth debug) context"
  let ?E = "[Some (''<tr><td><h3>'' @ cgi_escape tag @ ''</h3></td></tr>\<newline>''), None]"
  have eq: "?W = gen_seq ?P (?E, None)"
    using assms by (rule pipeline_error(1))
  have ok: "snd (TableRowGenerator c old_patch old_dict old_max old_snapshot new_patch new_dict
                 new_max new_snapshot pre colwidth debug) = None \<longrightarrow> snd ?P = None"
    using assms by (rule pipeline_error(2))
  have "snd ?P = None \<longrightarrow> gen_seq ?P (?E, None) = (fst ?P @ ?E, None)"
    by (simp add: gen_seq_def)
  with eq ok show ?thesis
    by (simp only: simp_thms) blast
qed

lemma sample_prefix_cleanup:
  "CleanupTableRowsGenerator
     (TableRowGenerator sample_collab None Map.empty 3 ''old'' None Map.empty 3 ''new''
        [(''equal'', [''a'', ''b'', ''c''], [''a'', ''b'', ''c''])] 80 False) 1 =
   ([Some ''<tr id=\"pair-1\"><td class=\"oldequal\" id=\"oldcode1\"> 1 a</td><td class=\"newequal\" id=\"newcode1\"> 1 a</td></tr>\<newline>'',
     Some (placeholder_row 1 1),
     Some ''<tr id=\"pair-3\"><td class=\"oldequal\" id=\"oldcode3\"> 3 c</td><td class=\"newequal\" id=\"newcode3\"> 3 c</td></tr>\<newline>''],
    None)"
  by code_simp

theorem pipeline_stops_at_error_witness:
  "0 < (1::int)
   \<and> startswith ''error: bad patch'' ''error''
   \<and> CleanupTableRowsGenerator
       (TableRowGenerator sample_collab None Map.empty 3 ''old'' None Map.empty 3 ''new''
          ([(''equal'', [''a'', ''b'', ''c''], [''a'', ''b'', ''c''])] @
           (''error: bad patch'', [], []) # [(''equal'', [''e''], [''e''])]) 80 False) 1 =
     ([Some ''<tr id=\"pair-1\"><td class=\"oldequal\" id=\"oldcode1\"> 1 a</td><td class=\"newequal\" id=\"newcode1\"> 1 a</td></tr>\<newline>'',
       Some (placeholder_row 1 1),
       Some ''<tr id=\"pair-3\"><td class=\"oldequal\" id=\"oldcode3\"> 3 c</td><td class=\"newequal\" id=\"newcode3\"> 3 c</td></tr>\<newline>'',
       Some ''<tr><td><h3>error: bad patch</h3></td></tr>\<newline>'',
       None],
      None)"
proof -
  have pos: "0 < (1::int)" by simp
  have pre: "\<forall>t\<in>set [(''equal'', [''a'', ''b'', ''c''], [''a'', ''b'', ''c''])].
      \<not> startswith (fst t) ''error''"
    by (simp add: startswith_def)
  have err: "startswith ''error: bad patch'' ''error''"
    by (simp add: startswith_def)
  have esc: "cgi_escape ''error: bad patch'' = ''error: bad patch''"
    by (simp add: cgi_escape_def)
  from pipeline_stops_at_error [OF pos pre err, of sample_collab None Map.empty 3 "''old''" None
      Map.empty 3 "''new''" "[]" "[]" "[(''equal'', [''e''], [''e''])]" 80 False]
  have "CleanupTableRowsGenerator
       (TableRowGenerator sample_collab None Map.empty 3 ''old'' None Map.empty 3 ''new''
          ([(''equal'', [''a'', ''b'', ''c''], [''a'', ''b'', ''c''])] @
           (''error: bad patch'', [], []) # [(''equal'', [''e''], [''e''])]) 80 False) 1 =
     gen_seq
       (CleanupTableRowsGenerator
          (TableRowGenerator sample_collab None Map.empty 3 ''old'' None Map.empty 3 ''new''
             [(''equal'', [''a'', ''b'', ''c''], [''a'', ''b'', ''c''])] 80 False) 1)
       ([Some (''<tr><td><h3>'' @ cgi_escape ''error: bad patch'' @ ''</h3></td></tr>\<newline>''), None],
        None)"
    by (rule conjunct1)
  then have "CleanupTableRowsGenerator
       (TableRowGenerator sample_collab None Map.empty 3 ''old'' None Map.empty 3 ''new''
          ([(''equal'', [''a'', ''b'', ''c''], [''a'', ''b'', ''c''])] @
           (''error: bad patch'', [], []) # [(''equal'', [''e''], [''e''])]) 80 False) 1 =
     ([Some ''<tr id=\"pair-1\"><td class=\"oldequal\" id=\"oldcode1\"> 1 a</td><td class=\"newequal\" id=\"newcode1\"> 1 a</td></tr>\<newline>'',
       Some (placeholder_row 1 1),
       Some ''<tr id=\"pair-3\"><td class=\"oldequal\" id=\"oldcode3\"> 3 c</td><td class=\"newequal\" id=\"newcode3\"> 3 c</td></tr>\<newline>'',
       Some ''<tr><td><h3>error: bad patch</h3></td></tr>\<newline>'',
       None],
      None)"
    unfolding sample_prefix_cleanup esc by (simp add: gen_seq_def)
  with pos err show ?thesis by (intro conjI)
qed

theorem pipeline_stops_at_error_counterexample:
  "startswith ''error: bad patch'' ''error''
   \<and> CleanupTableRowsGenerator
       (TableRowGenerator sample_collab None Map.empty 3 ''old'' None Map.empty 3 ''new''
          [(''error: bad patch'', [], [])] 80 False) 0 =
     ([], Some TypeError)
   \<and> CleanupTableRowsGenerator
       (TableRowGenerator sample_collab None Map.empty 3 ''old'' None Map.empty 3 ''new''
          [(''equal'', [''a''], [''a'']), (''error: bad patch'', [], [])] 80 False) 0 =
     ([], Some TypeError)"
  by code_simp

section \<open>The message that both sides are equal\<close>

text \<open>
  C3, as the code has it. When the row generator is given two different patches with the
  same lines, it yields one row with the message that both sides are equal and then goes
  on with the loop over the triples as it always does: the rows of the triples follow
  the message row, and their ids count the line pairs of the triples.
\<close>

theorem TableRowGenerator_both_sides_equal:
  assumes "old_patch = Some op" and "new_patch = Some np" and "op \<noteq> np"
    and "lines op = lines np"
  shows "TableRowGenerator c old_patch old_dict old_max old_snapshot new_patch new_dict new_max
           new_snapshot ts colwidth debug =
         gen_seq
           ([([], ''<tr><td class=\"info\" colspan=\"2\">(Both sides are equal)</td></tr>'')], None)
           (render_triples c old_patch old_dict old_snapshot new_patch new_dict new_snapshot
              colwidth debug (GetDiffParams c debug)
              (1 + max (int (length (str_int old_max))) (int (length (str_int new_max))))
              (1 + (1 + max (int (length (str_int old_max))) (int (length (str_int new_max)))))
              (0, 0, 0) ts)
       \<and> (\<exists>k. pair_ids (fst (TableRowGenerator c old_patch old_dict old_max old_snapshot
                  new_patch new_dict new_max new_snapshot ts colwidth debug)) = [1..<Suc k]
              \<and> k \<le> line_pairs ts
              \<and> (snd (TableRowGenerator c old_patch old_dict old_max old_snapshot new_patch
                    new_dict new_max new_snapshot ts colwidth debug) = None \<longrightarrow>
                  k = line_pairs ts))"
proof
  from assms have "info_rows old_patch old_max new_patch new_max =
      ([([], ''<tr><td class=\"info\" colspan=\"2\">(Both sides are equal)</td></tr>'')], None)"
    by (simp add: info_rows_def)
  then show "TableRowGenerator c old_patch old_dict old_max old_snapshot new_patch new_dict
      new_max new_snapshot ts colwidth debug =
    gen_seq
      ([([], ''<tr><td class=\"info\" colspan=\"2\">(Both sides are equal)</td></tr>'')], None)
      (render_triples c old_patch old_dict old_snapshot new_patch new_dict new_snapshot
         colwidth debug (GetDiffParams c debug)
         (1 + max (int (length (str_int old_max))) (int (length (str_int new_max))))
         (1 + (1 + max (int (length (str_int old_max))) (int (length (str_int new_max)))))
         (0, 0, 0) ts)"
    by (simp add: TableRowGenerator_def Let_def)
next
  from TableRowGenerator_ids [of c old_patch old_dict old_max old_snapshot new_patch new_dict
      new_max new_snapshot ts colwidth debug]
  obtain k where "pair_ids (fst (TableRowGenerator c old_patch old_dict old_max old_snapshot
        new_patch new_dict new_max new_snapshot ts colwidth debug)) = [1..<Suc k]"
    "k \<le> line_pairs ts"
    "snd (TableRowGenerator c old_patch old_dict old_max old_snapshot new_patch
        new_dict new_max new_snapshot ts colwidth debug) = None \<longrightarrow> k = line_pairs ts"
    by (elim exE conjE) (rule that)
  then have "pair_ids (fst (TableRowGenerator c old_patch old_dict old_max old_snapshot
        new_patch new_dict new_max new_snapshot ts colwidth debug)) = [1..<Suc k]
     \<and> k \<le> line_pairs ts
     \<and> (snd (TableRowGenerator c old_patch old_dict old_max old_snapshot new_patch
          new_dict new_max new_snapshot ts colwidth debug) = None \<longrightarrow> k = line_pairs ts)"
    by (intro conjI)
  then show "\<exists>k. pair_ids (fst (TableRowGenerator c old_patch old_dict old_max old_snapshot
        new_patch new_dict new_max new_snapshot ts colwidth debug)) = [1..<Suc k]
     \<and> k \<le> line_pairs ts
     \<and> (snd (TableRowGenerator c old_patch old_dict old_max old_snapshot new_patch
          new_dict new_max new_snapshot ts colwidth debug) = None \<longrightarrow> k = line_pairs ts)"
    by (rule exI)
qed

lemma sample_patches_differ:
  "sample_patch 1 \<noteq> sample_patch 2 \<and> lines (sample_patch 1) = lines (sample_patch 2)"
  by (simp add: sample_patch_def)

lemma sample_equal_triple:
  "render_triples sample_collab (Some (sample_patch 1)) Map.empty ''new''
     (Some (sample_patch 2)) Map.empty ''new'' 80 False (GetDiffParams sample_collab False)
     (1 + max (int (length (str_int 2))) (int (length (str_int 2))))
     (1 + (1 + max (int (length (str_int 2))) (int (length (str_int 2)))))
     (0, 0, 0) [(''equal'', [''a''], [''a''])] =
   ([(''equal'',
      ''<tr id=\"pair-1\"><td class=\"oldequal\" id=\"oldcode1\"> 1 a</td><td class=\"newequal\" id=\"newcode1\"> 1 a</td></tr>\<newline><tr class=\"inline-comments\"><td id=\"old-line-1\"></td><td id=\"new-line-1\"></td></tr>\<newline>'')],
    None)"
  by code_simp

theorem TableRowGenerator_both_sides_equal_witness:
  "sample_patch 1 \<noteq> sample_patch 2
   \<and> lines (sample_patch 1) = lines (sample_patch 2)
   \<and> TableRowGenerator sample_collab (Some (sample_patch 1)) Map.empty 2 ''new''
       (Some (sample_patch 2)) Map.empty 2 ''new'' [(''equal'', [''a''], [''a''])] 80 False =
     ([([], ''<tr><td class=\"info\" colspan=\"2\">(Both sides are equal)</td></tr>''),
       (''equal'',
        ''<tr id=\"pair-1\"><td class=\"oldequal\" id=\"oldcode1\"> 1 a</td><td class=\"newequal\" id=\"newcode1\"> 1 a</td></tr>\<newline><tr class=\"inline-comments\"><td id=\"old-line-1\"></td><td id=\"new-line-1\"></td></tr>\<newline>'')],
      None)"
proof -
  from sample_patches_differ have d: "sample_patch 1 \<noteq> sample_patch 2"
    and l: "lines (sample_patch 1) = lines (sample_patch 2)"
    by simp_all
  from TableRowGenerator_both_sides_equal [OF refl refl d l, of sample_collab Map.empty 2
      "''new''" Map.empty 2 "''new''" "[(''equal'', [''a''], [''a''])]" 80 False]
  have "TableRowGenerator sample_collab (Some (sample_patch 1)) Map.empty 2 ''new''
       (Some (sample_patch 2)) Map.empty 2 ''new'' [(''equal'', [''a''], [''a''])] 80 False =
     gen_seq
       ([([], ''<tr><td class=\"info\" colspan=\"2\">(Both sides are equal)</td></tr>'')], None)
       (render_triples sample_collab (Some (sample_patch 1)) Map.empty ''new''
          (Some (sample_patch 2)) Map.empty ''new'' 80 False (GetDiffParams sample_collab False)
          (1 + max (int (length (str_int 2))) (int (length (str_int 2))))
          (1 + (1 + max (int (length (str_int 2))) (int (length (str_int 2)))))
          (0, 0, 0) [(''equal'', [''a''], [''a''])])"
    by (rule conjunct1)
  then have "TableRowGenerator sample_collab (Some (sample_patch 1)) Map.empty 2 ''new''
       (Some (sample_patch 2)) Map.empty 2 ''new'' [(''equal'', [''a''], [''a''])] 80 False =
     ([([], ''<tr><td class=\"info\" colspan=\"2\">(Both sides are equal)</td></tr>''),
       (''equal'',
        ''<tr id=\"pair-1\"><td class=\"oldequal\" id=\"oldcode1\"> 1 a</td><td class=\"newequal\" id=\"newcode1\"> 1 a</td></tr>\<newline><tr class=\"inline-comments\"><td id=\"old-line-1\"></td><td id=\"new-line-1\"></td></tr>\<newline>'')],
      None)"
    unfolding sample_equal_triple by (simp add: gen_seq_def)
  with d l show ?thesis by (intro conjI)
qed

theorem TableRowGenerator_both_sides_equal_counterexample:
  "sample_patch 1 \<noteq> sample_patch 2
   \<and> lines (sample_patch 1) = lines (sample_patch 2)
   \<and> length (fst (TableRowGenerator sample_collab (Some (sample_patch 1)) Map.empty 2 ''new''
       (Some (sample_patch 2)) Map.empty 2 ''new'' [(''equal'', [''a''], [''a''])] 80 False)) = 2
   \<and> fst (TableRowGenerator sample_collab (Some (sample_patch 1)) Map.empty 2 ''new''
       (Some (sample_patch 2)) Map.empty 2 ''new'' [(''equal'', [''a''], [''a''])] 80 False) ! 1 =
     (''equal'',
      ''<tr id=\"pair-1\"><td class=\"oldequal\" id=\"oldcode1\"> 1 a</td><td class=\"newequal\" id=\"newcode1\"> 1 a</td></tr>\<newline><tr class=\"inline-comments\"><td id=\"old-line-1\"></td><td id=\"new-line-1\"></td></tr>\<newline>'')"
  by code_simp

section \<open>Drafts and published comments\<close>
























































end
